theory Spec2Isabelle
  imports Complex_Main "HOL-Library.Multiset"
begin

section \<open>Client data (web/src/App.tsx)\<close>

text \<open>
  A browser \<open>File\<close> is modelled by the three attributes the code reads: its name, its
  MIME type and its bytes (\<open>file.size\<close> is the number of bytes). Strings are byte
  strings: a path is identified with its UTF-8 encoding, which is what \<open>new Blob\<close>
  writes for a string part.
\<close>

record File =
  fileName :: string
  fileType :: string
  fileBytes :: string

definition fileSize :: "File \<Rightarrow> nat" where
  "fileSize f = length (fileBytes f)"

text \<open>\<open>DemoFile.file\<close> is the field \<open>fileObj\<close> (\<open>file\<close> is reserved).\<close>

record DemoFile =
  fileObj :: File
  fullPath :: string

section \<open>Archive digest: \<open>hashFilesSHA256\<close>\<close>

text \<open>
  \<open>[...list].sort((a, b) => a.fullPath.localeCompare(b.fullPath))\<close>.
  \<open>localeCompare\<close> belongs to the platform and depends on the locale, so the
  comparator is a parameter \<open>cmp\<close>; a negative result puts \<open>a\<close> first, a positive one
  \<open>b\<close>, zero keeps the input order (\<open>Array.prototype.sort\<close> is stable). For a consistent
  comparator the result of a stable sort is determined, and stable insertion computes it.
\<close>

type_synonym comparator = "string \<Rightarrow> string \<Rightarrow> int"

fun insertByPath :: "comparator \<Rightarrow> DemoFile \<Rightarrow> DemoFile list \<Rightarrow> DemoFile list" where
  "insertByPath cmp x [] = [x]"
| "insertByPath cmp x (y # ys) =
     (if cmp (fullPath x) (fullPath y) \<le> 0 then x # y # ys
      else y # insertByPath cmp x ys)"

definition sortByPath :: "comparator \<Rightarrow> DemoFile list \<Rightarrow> DemoFile list" where
  "sortByPath cmp list = foldr (insertByPath cmp) list []"

text \<open>
  The loop pushes, per item, the path, the string \<open>"\n"\<close> and the file's bytes;
  \<open>new Blob(blobs).arrayBuffer()\<close> is their concatenation.
\<close>

definition blobParts :: "DemoFile list \<Rightarrow> string list" where
  "blobParts sorted_list =
     concat (map (\<lambda>item. [fullPath item, [CHR 0x0A], fileBytes (fileObj item)]) sorted_list)"

definition archiveBuffer :: "comparator \<Rightarrow> DemoFile list \<Rightarrow> string" where
  "archiveBuffer cmp list = concat (blobParts (sortByPath cmp list))"

text \<open>\<open>sha256Hex\<close> of App.tsx is \<open>crypto.subtle.digest\<close>: the parameter \<open>sha\<close>.\<close>

definition hashFilesSHA256 :: "(string \<Rightarrow> string) \<Rightarrow> comparator \<Rightarrow> DemoFile list \<Rightarrow> string" where
  "hashFilesSHA256 sha cmp list = sha (archiveBuffer cmp list)"

text \<open>
  What ECMAScript asks of a comparator for the sort to be defined: equal to itself,
  the sign flips with the arguments, and "not after" is transitive.
\<close>

definition consistentComparator :: "comparator \<Rightarrow> bool" where
  "consistentComparator cmp \<longleftrightarrow>
     (\<forall>a. cmp a a = 0) \<and>
     (\<forall>a b. (cmp a b < 0) = (0 < cmp b a)) \<and>
     (\<forall>a b c. cmp a b \<le> 0 \<and> cmp b c \<le> 0 \<longrightarrow> cmp a c \<le> 0)"

text \<open>The order the sort works with: \<open>a\<close> may stand before \<open>b\<close>.\<close>

definition notAfter :: "comparator \<Rightarrow> DemoFile \<Rightarrow> DemoFile \<Rightarrow> bool" where
  "notAfter cmp a b \<longleftrightarrow> cmp (fullPath a) (fullPath b) \<le> 0"

text \<open>What the digest reads of an entry: its path and the bytes of its file.\<close>

definition pathAndBytes :: "DemoFile \<Rightarrow> string \<times> string" where
  "pathAndBytes f = (fullPath f, fileBytes (fileObj f))"

text \<open>
  A sample comparator for concrete runs: the order of the code units. It is
  consistent, and like \<open>localeCompare\<close> it answers 0 on equal paths.
\<close>

fun ordinalCompare :: comparator where
  "ordinalCompare [] [] = 0"
| "ordinalCompare [] (y # ys) = - 1"
| "ordinalCompare (x # xs) [] = 1"
| "ordinalCompare (x # xs) (y # ys) =
     (if (of_char x :: nat) < of_char y then - 1
      else if (of_char y :: nat) < of_char x then 1
      else ordinalCompare xs ys)"

definition mkFile :: "string \<Rightarrow> string \<Rightarrow> DemoFile" where
  "mkFile path bytes =
     \<lparr>fileObj = \<lparr>fileName = path, fileType = [], fileBytes = bytes\<rparr>, fullPath = path\<rparr>"

section \<open>Server: \<open>POST /upload/start\<close> path sanitization (routes/upload)\<close>

text \<open>
  \<open>f.relPath.replace(/^([./])+/, "")\<close>: the longest prefix of dots and slashes is
  removed (no such prefix: no match, the string is unchanged).
\<close>

definition stripLeading :: "string \<Rightarrow> string" where
  "stripLeading s = dropWhile (\<lambda>c. c = CHR ''.'' \<or> c = CHR ''/'') s"

text \<open>
  \<open>.replace(/\.\.\//g, "")\<close>: one pass from the left; each match of \<open>../\<close> is
  removed and the scan goes on behind it, so the text that a removal joins is not
  scanned again.
\<close>

fun removeDotDotSlash :: "string \<Rightarrow> string" where
  "removeDotDotSlash (a # b # c # rest) =
     (if a = CHR ''.'' \<and> b = CHR ''.'' \<and> c = CHR ''/'' then removeDotDotSlash rest
      else a # removeDotDotSlash (b # c # rest))"
| "removeDotDotSlash s = s"

definition safePath :: "string \<Rightarrow> string" where
  "safePath relPath = removeDotDotSlash (stripLeading relPath)"

definition deriveKey :: "string \<Rightarrow> string \<Rightarrow> string" where
  "deriveKey sid relPath = ''demo/'' @ sid @ ''/'' @ safePath relPath"

text \<open>The segments of a path: the pieces between slashes.\<close>

fun segments :: "string \<Rightarrow> string list" where
  "segments [] = [[]]"
| "segments (c # cs) =
     (if c = CHR ''/'' then [] # segments cs
      else (case segments cs of seg # segs \<Rightarrow> (c # seg) # segs | [] \<Rightarrow> [[c]]))"

definition hasDotDotSegment :: "string \<Rightarrow> bool" where
  "hasDotDotSegment p \<longleftrightarrow> ''..'' \<in> set (segments p)"



section \<open>Server: the handler of \<open>POST /upload/start\<close>\<close>

text \<open>
  \<open>type FileReq = { relPath: string; size: number; contentType?: string }\<close> and the
  request body \<open>{ sessionId?: string; files: FileReq[] }\<close>; a missing member is
  \<open>None\<close>. The fields carry a prefix, since the client's records use the same names.
\<close>

record FileReq =
  reqRelPath :: string
  reqSize :: nat
  reqContentType :: "string option"

record UploadBody =
  bodySessionId :: "string option"
  bodyFiles :: "FileReq list option"

text \<open>The items of the answer, which are the client's \<open>PresignItem\<close>.\<close>

record PresignItem =
  relPath :: string
  objectKey :: string
  s3Uri :: string
  uploadUrl :: string
  contentType :: string

text \<open>
  What the handler answers: \<open>res.status(n).json({ error })\<close>, or
  \<open>res.json({ sessionId, items })\<close> with status 200.
\<close>

datatype reply =
  ErrorReply nat string
| PlanReply string "PresignItem list"

text \<open>
  What the handler does besides answering: it draws random bytes, asks the credential
  issuer for a signed URL (\<open>getSignedUrl\<close> with the bucket and the key), and logs an
  error.
\<close>

datatype effect =
  RandomBytes
| GetSignedUrl string string
| ConsoleError

text \<open>\<open>/^[a-zA-Z0-9_-]{6,}$/.test(sessionId)\<close>\<close>

definition sidChars :: string where
  "sidChars = ''abcdefghijklmnopqrstuvwxyzABCDEFGHIJKLMNOPQRSTUVWXYZ0123456789_-''"

definition sidPattern :: "string \<Rightarrow> bool" where
  "sidPattern s \<longleftrightarrow> 6 \<le> length s \<and> list_all (\<lambda>c. c \<in> set sidChars) s"

text \<open>
  \<open>sessionId && pattern ? sessionId : crypto.randomBytes(8).toString("hex")\<close>;
  \<open>randomHex\<close> is the string the random source gives when asked. The result is the
  session id and the effect of choosing it.
\<close>

definition chooseSid :: "string \<Rightarrow> string option \<Rightarrow> string \<times> effect list" where
  "chooseSid randomHex sessionId =
     (case sessionId of
        None \<Rightarrow> (randomHex, [RandomBytes])
      | Some s \<Rightarrow> if s \<noteq> [] \<and> sidPattern s then (s, []) else (randomHex, [RandomBytes]))"

text \<open>\<open>f.contentType || "application/octet-stream"\<close>: missing and empty are falsy.\<close>

definition contentTypeOrDefault :: "string option \<Rightarrow> string" where
  "contentTypeOrDefault ct =
     (case ct of None \<Rightarrow> ''application/octet-stream''
      | Some t \<Rightarrow> if t = [] then ''application/octet-stream'' else t)"

text \<open>
  The body of \<open>files.map(async (f) => ...)\<close> for one file, given the URL the issuer
  returned.
\<close>

definition presignItem :: "string \<Rightarrow> string \<Rightarrow> FileReq \<Rightarrow> string \<Rightarrow> PresignItem" where
  "presignItem BUCKET sid f url =
     \<lparr>relPath = safePath (reqRelPath f),
      objectKey = deriveKey sid (reqRelPath f),
      s3Uri = ''s3://'' @ BUCKET @ ''/'' @ deriveKey sid (reqRelPath f),
      uploadUrl = url,
      contentType = contentTypeOrDefault (reqContentType f)\<rparr>"

text \<open>
  \<open>Promise.all\<close> over the mapped files: every callback runs up to its
  \<open>await getSignedUrl\<close>, so the issuer is asked once per file, in order, whatever the
  answers are; the result is the list of items when every request is granted and a
  rejection (\<open>None\<close>) when one is refused.
\<close>

fun collectItems :: "string \<Rightarrow> string \<Rightarrow> (FileReq \<times> string option) list \<Rightarrow> PresignItem list option" where
  "collectItems BUCKET sid [] = Some []"
| "collectItems BUCKET sid ((f, None) # rest) = None"
| "collectItems BUCKET sid ((f, Some url) # rest) =
     (case collectItems BUCKET sid rest of
        None \<Rightarrow> None
      | Some items \<Rightarrow> Some (presignItem BUCKET sid f url # items))"

text \<open>
  The handler. \<open>getSignedUrl\<close> is the credential issuer (bucket and key to a URL, or
  \<open>None\<close> when it throws); the \<open>catch\<close> logs and answers 500.
\<close>

definition uploadStart ::
  "string \<Rightarrow> (string \<Rightarrow> string \<Rightarrow> string option) \<Rightarrow> string \<Rightarrow> UploadBody \<Rightarrow> reply \<times> effect list" where
  "uploadStart BUCKET getSignedUrl randomHex body =
     (case bodyFiles body of
        None \<Rightarrow> (ErrorReply 400 ''no_files'', [])
      | Some fs \<Rightarrow>
          if length fs = 0 then (ErrorReply 400 ''no_files'', [])
          else
            (let (sid, drawn) = chooseSid randomHex (bodySessionId body);
                 asked = map (\<lambda>f. GetSignedUrl BUCKET (deriveKey sid (reqRelPath f))) fs;
                 granted = map (\<lambda>f. (f, getSignedUrl BUCKET (deriveKey sid (reqRelPath f)))) fs
             in case collectItems BUCKET sid granted of
                  Some items \<Rightarrow> (PlanReply sid items, drawn @ asked)
                | None \<Rightarrow> (ErrorReply 500 ''presign_failed'', drawn @ asked @ [ConsoleError])))"

text \<open>Sample issuers for concrete runs: one that grants every request, one that refuses.\<close>

definition grantAll :: "string \<Rightarrow> string \<Rightarrow> string option" where
  "grantAll bucket key = Some (''https://'' @ bucket @ ''.s3.amazonaws.com/'' @ key @ ''?X-Amz-Signature=0'')"

definition refuseAll :: "string \<Rightarrow> string \<Rightarrow> string option" where
  "refuseAll bucket key = None"

section \<open>Upload module: the chunked hasher \<open>sha256Hex\<close> (UploadModule)\<close>

text \<open>\<open>const chunkSize = 8 * 1024 * 1024; // 8 MiB slices\<close>\<close>

definition chunkSize :: nat where
  "chunkSize = 8 * 1024 * 1024"

text \<open>\<open>file.slice(start, end)\<close>: the bytes from \<open>start\<close> up to, not including, \<open>end\<close>.\<close>

definition slice :: "string \<Rightarrow> nat \<Rightarrow> nat \<Rightarrow> string" where
  "slice bytes start end = take (end - start) (drop start bytes)"

text \<open>
  The \<open>while (offset < total)\<close> loop. The hasher of \<open>hash-wasm\<close> is a state \<open>hasher\<close>
  with its \<open>update\<close>; \<open>bufs\<close> records the buffers that \<open>chunk.arrayBuffer()\<close> has
  materialised so far, in order. The progress callback and the yield to the UI after
  each chunk change neither.
\<close>

function sha256HexLoop ::
  "('h \<Rightarrow> string \<Rightarrow> 'h) \<Rightarrow> string \<Rightarrow> nat \<Rightarrow> 'h \<Rightarrow> string list \<Rightarrow> 'h \<times> string list" where
  "sha256HexLoop update bytes offset hasher bufs =
     (if offset < length bytes then
        (let buf = slice bytes offset (min (offset + chunkSize) (length bytes))
         in sha256HexLoop update bytes (offset + length buf) (update hasher buf) (bufs @ [buf]))
      else (hasher, bufs))"
  by pat_completeness auto
termination
  by (relation "measure (\<lambda>(update, bytes, offset, hasher, bufs). length bytes - offset)")
     (auto simp: slice_def chunkSize_def)

declare sha256HexLoop.simps [simp del]

text \<open>
  \<open>sha256Hex(file)\<close>: a fresh hasher \<open>init\<close>, the loop from offset 0, then
  \<open>hasher.digest("hex")\<close>.
\<close>

definition sha256Hex :: "'h \<Rightarrow> ('h \<Rightarrow> string \<Rightarrow> 'h) \<Rightarrow> ('h \<Rightarrow> string) \<Rightarrow> string \<Rightarrow> string" where
  "sha256Hex init update digest bytes = digest (fst (sha256HexLoop update bytes 0 init []))"

definition sha256HexBuffers :: "('h \<Rightarrow> string \<Rightarrow> 'h) \<Rightarrow> 'h \<Rightarrow> string \<Rightarrow> string list" where
  "sha256HexBuffers update init bytes = snd (sha256HexLoop update bytes 0 init [])"

text \<open>
  The buffers \<open>hashFilesSHA256\<close> of App.tsx materialises: \<open>item.file.arrayBuffer()\<close>
  for every item, the whole file each time, and then \<open>new Blob(blobs).arrayBuffer()\<close>,
  the whole archive in one buffer.
\<close>

definition hashFilesBuffers :: "comparator \<Rightarrow> DemoFile list \<Rightarrow> string list" where
  "hashFilesBuffers cmp list =
     map (\<lambda>item. fileBytes (fileObj item)) (sortByPath cmp list) @ [archiveBuffer cmp list]"

section \<open>Client: numbers and strings of the platform\<close>

text \<open>
  A JavaScript number is not-a-number, an infinity or a finite value. Finite values are
  modelled as reals. A result of arithmetic that is beyond the largest double is an
  infinity and one that is below half the smallest double is zero, as for doubles; in
  between, the result is kept as the exact real (the rounding to the nearest double is
  left out, and so is the sign of zero).
\<close>

datatype jsnum = NaN | Num real | PosInf | NegInf

text \<open>\<open>Number.isNaN(x)\<close>\<close>

definition isNaN :: "jsnum \<Rightarrow> bool" where
  "isNaN x \<longleftrightarrow> x = NaN"

text \<open>\<open>a < b\<close>: false as soon as one side is not-a-number.\<close>

fun jsLess :: "jsnum \<Rightarrow> jsnum \<Rightarrow> bool" where
  "jsLess (Num a) (Num b) = (a < b)"
| "jsLess (Num a) PosInf = True"
| "jsLess NegInf (Num b) = True"
| "jsLess NegInf PosInf = True"
| "jsLess a b = False"

text \<open>A number in a condition (\<open>x && ...\<close>, \<open>x || ...\<close>): zero and not-a-number are falsy.\<close>

definition truthy :: "jsnum \<Rightarrow> bool" where
  "truthy x \<longleftrightarrow> x \<noteq> NaN \<and> x \<noteq> Num 0"

text \<open>
  The range of the doubles: a real of at least \<open>2^1024 - 2^970\<close> (the largest double
  plus half a unit in its last place) is rounded to infinity, and a real of at most
  \<open>2^-1075\<close> (half the smallest double) to zero.
\<close>

definition overflowBound :: real where
  "overflowBound = 2 ^ 1024 - 2 ^ 970"

definition underflowBound :: real where
  "underflowBound = 1 / 2 ^ 1075"

definition inDoubleRange :: "real \<Rightarrow> jsnum" where
  "inDoubleRange q =
     (if overflowBound \<le> q then PosInf
      else if q \<le> - overflowBound then NegInf
      else if \<bar>q\<bar> \<le> underflowBound then Num 0
      else Num q)"

text \<open>\<open>a / b\<close>\<close>

fun jsDiv :: "jsnum \<Rightarrow> jsnum \<Rightarrow> jsnum" where
  "jsDiv (Num a) (Num b) =
     (if b \<noteq> 0 then inDoubleRange (a / b)
      else if a = 0 then NaN else if 0 < a then PosInf else NegInf)"
| "jsDiv (Num a) PosInf = Num 0"
| "jsDiv (Num a) NegInf = Num 0"
| "jsDiv PosInf (Num b) = (if 0 \<le> b then PosInf else NegInf)"
| "jsDiv NegInf (Num b) = (if 0 \<le> b then NegInf else PosInf)"
| "jsDiv a b = NaN"

text \<open>
  \<open>s.trim()\<close>: white space and line terminators are removed at both ends. On the
  bytes of UTF-8 these are the single bytes of TAB, LF, VT, FF, CR and the space, the
  two bytes of U+00A0, and the three bytes of U+1680, U+2000 to U+200A, U+2028,
  U+2029, U+202F, U+205F, U+3000 and U+FEFF.
\<close>

definition ws1 :: "char \<Rightarrow> bool" where
  "ws1 a \<longleftrightarrow> a \<in> set [CHR '' '', CHR 0x09, CHR 0x0A, CHR 0x0B, CHR 0x0C, CHR 0x0D]"

definition ws2 :: "char \<Rightarrow> char \<Rightarrow> bool" where
  "ws2 a b \<longleftrightarrow> a = CHR 0xC2 \<and> b = CHR 0xA0"

definition ws3 :: "char \<Rightarrow> char \<Rightarrow> char \<Rightarrow> bool" where
  "ws3 a b c \<longleftrightarrow>
     (a = CHR 0xE1 \<and> b = CHR 0x9A \<and> c = CHR 0x80) \<or>
     (a = CHR 0xE2 \<and> b = CHR 0x80 \<and>
        ((0x80 \<le> (of_char c :: nat) \<and> (of_char c :: nat) \<le> 0x8A) \<or>
         c \<in> set [CHR 0xA8, CHR 0xA9, CHR 0xAF])) \<or>
     (a = CHR 0xE2 \<and> b = CHR 0x81 \<and> c = CHR 0x9F) \<or>
     (a = CHR 0xE3 \<and> b = CHR 0x80 \<and> c = CHR 0x80) \<or>
     (a = CHR 0xEF \<and> b = CHR 0xBB \<and> c = CHR 0xBF)"

fun trimStart :: "string \<Rightarrow> string" where
  "trimStart (a # b # c # rest) =
     (if ws1 a then trimStart (b # c # rest)
      else if ws2 a b then trimStart (c # rest)
      else if ws3 a b c then trimStart rest
      else a # b # c # rest)"
| "trimStart [a, b] = (if ws1 a then trimStart [b] else if ws2 a b then [] else [a, b])"
| "trimStart [a] = (if ws1 a then [] else [a])"
| "trimStart [] = []"

text \<open>The same from the end, on the reversed string.\<close>

fun trimEndRev :: "string \<Rightarrow> string" where
  "trimEndRev (c # b # a # rest) =
     (if ws1 c then trimEndRev (b # a # rest)
      else if ws2 b c then trimEndRev (a # rest)
      else if ws3 a b c then trimEndRev rest
      else c # b # a # rest)"
| "trimEndRev [c, b] = (if ws1 c then trimEndRev [b] else if ws2 b c then [] else [c, b])"
| "trimEndRev [c] = (if ws1 c then [] else [c])"
| "trimEndRev [] = []"

definition jsTrim :: "string \<Rightarrow> string" where
  "jsTrim s = rev (trimEndRev (rev (trimStart s)))"

section \<open>Client: the state of \<open>App\<close> and its handlers\<close>

datatype Product = Permanence | PermanencePlus | Heirloom

datatype VaultVisibility = PUBLIC | PRIVATE

text \<open>
  The step of the flow: \<open>"selectProduct" | "upload" | "pricing" | "manifest" | "minting"
  | "vault"\<close>.
\<close>

datatype Step =
  SelectProductStep | UploadStep | PricingStep | ManifestStep | MintingStep | VaultStep

text \<open>The position of a step in the stepper (Select, Upload, Pricing, Manifest, Mint, Vault).\<close>

fun stepRank :: "Step \<Rightarrow> nat" where
  "stepRank SelectProductStep = 0"
| "stepRank UploadStep = 1"
| "stepRank PricingStep = 2"
| "stepRank ManifestStep = 3"
| "stepRank MintingStep = 4"
| "stepRank VaultStep = 5"

text \<open>\<open>lockedEndowment: null | { usd, eth, usdPerEth }\<close>\<close>

record LockedEndowment =
  usd :: jsnum
  eth :: jsnum
  usdPerEth :: jsnum

record TokenData =
  contract :: string
  tokenId :: string
  owner :: string
  tokenName :: string
  imageDataUrl :: string
  tokenUriJson :: string

text \<open>
  The \<open>useState\<close> cells of \<open>App\<close> that the build flow reads or writes (\<open>mode\<close> and
  \<open>dragActive\<close> only steer the display). \<open>product\<close> is the field \<open>productChoice\<close>
  and \<open>manifest\<close> the field \<open>manifestText\<close>. Two more fields hold what the
  component has in flight: \<open>pendingHashes\<close>, the file lists of the calls of
  \<open>proceedAfterPricing\<close> that wait for their archive hash, and \<open>pendingMints\<close>, the
  number of calls of \<open>startMint\<close> that wait for their timers.
\<close>

record App =
  started :: bool
  productChoice :: "Product option"
  escrowYears :: nat
  files :: "DemoFile list"
  sessionId :: string
  uploading :: bool
  uploadPct :: nat
  uploadedItems :: "PresignItem list option"
  vaultName :: string
  acceptedPrice :: bool
  manifestText :: string
  visibility :: "VaultVisibility option"
  endowmentUsd :: string
  endowmentError :: "string option"
  demoEthPrice :: jsnum
  lockedEndowment :: "LockedEndowment option"
  archiveHash :: string
  step :: Step
  showTokenModal :: bool
  tokenData :: "TokenData option"
  pendingHashes :: "DemoFile list list"
  pendingMints :: nat

text \<open>The initial values of the cells; \<open>sid\<close> is \<open>randomHex(8)\<close>.\<close>

definition initialApp :: "string \<Rightarrow> App" where
  "initialApp sid =
     \<lparr>started = False, productChoice = None, escrowYears = 3, files = [], sessionId = sid,
      uploading = False, uploadPct = 0, uploadedItems = None, vaultName = [],
      acceptedPrice = False, manifestText = [], visibility = None, endowmentUsd = [],
      endowmentError = None, demoEthPrice = Num 3200, lockedEndowment = None,
      archiveHash = [], step = SelectProductStep, showTokenModal = False, tokenData = None,
      pendingHashes = [], pendingMints = 0\<rparr>"

text \<open>
  What the upload answers to a \<open>PUT\<close>: the status, the status text and the body
  (\<open>None\<close> when \<open>resp.text()\<close> rejects, which the code reads as the empty string).
\<close>

record PutResponse =
  status :: nat
  statusText :: string
  bodyText :: "string option"

text \<open>\<open>resp.ok\<close>: a status from 200 to 299.\<close>

definition ok :: "nat \<Rightarrow> bool" where
  "ok n \<longleftrightarrow> 200 \<le> n \<and> n \<le> 299"

text \<open>
  The platform the client runs on: \<open>parseFloat\<close>, \<open>String.prototype.localeCompare\<close>,
  the SHA-256 digest as hex, the API behind \<open>POST /api/upload/start\<close> (\<open>None\<close>: the
  request itself fails), the storage behind a \<open>PUT\<close> to a signed URL (\<open>None\<close>:
  \<open>fetch\<close> rejects), and whether \<open>file.arrayBuffer()\<close> can read a file (a file that
  was moved or changed after it was picked cannot be read).
\<close>

record Platform =
  parseFloat :: "string \<Rightarrow> jsnum"
  localeCompare :: comparator
  sha256 :: "string \<Rightarrow> string"
  api :: "UploadBody \<Rightarrow> reply option"
  fetchPut :: "string \<Rightarrow> File \<Rightarrow> PutResponse option"
  readable :: "File \<Rightarrow> bool"

text \<open>\<open>resetFlow\<close>\<close>

definition resetFlow :: "App \<Rightarrow> App" where
  "resetFlow st =
     st\<lparr>productChoice := None, files := [], vaultName := [], acceptedPrice := False,
        manifestText := [], visibility := None, step := SelectProductStep, escrowYears := 3,
        showTokenModal := False, tokenData := None, endowmentUsd := [],
        endowmentError := None, lockedEndowment := None, started := True\<rparr>"

text \<open>
  \<open>hashFilesSHA256(files)\<close> as the handler awaits it: the digest, or a rejection
  (\<open>None\<close>) when a file cannot be read.
\<close>

definition hashFilesResult :: "Platform \<Rightarrow> DemoFile list \<Rightarrow> string option" where
  "hashFilesResult pf list =
     (if list_all (\<lambda>item. readable pf (fileObj item)) list
      then Some (hashFilesSHA256 (sha256 pf) (localeCompare pf) list) else None)"

text \<open>
  The end of \<open>proceedAfterPricing\<close>, common to its two successful branches, up to the
  \<open>await\<close>: the error is cleared; without files the hash is the empty string, and the
  handler sets it and moves to the manifest step at once; with files the handler
  starts the hash and waits.
\<close>

definition awaitArchiveHash :: "App \<Rightarrow> App" where
  "awaitArchiveHash st =
     (if length (files st) \<noteq> 0
      then st\<lparr>endowmentError := None, pendingHashes := pendingHashes st @ [files st]\<rparr>
      else st\<lparr>endowmentError := None, archiveHash := [], step := ManifestStep\<rparr>)"

text \<open>
  The rest of \<open>proceedAfterPricing\<close>, when hash \<open>i\<close> of those in flight ends: with the
  digest, \<open>setArchiveHash(hash); setStep("manifest")\<close>, whatever the step is by then;
  with a rejection the handler ends there and nothing is set.
\<close>

definition hashSettled :: "Platform \<Rightarrow> nat \<Rightarrow> App \<Rightarrow> App" where
  "hashSettled pf i st =
     (if i < length (pendingHashes st) then
        (case hashFilesResult pf (pendingHashes st ! i) of
           Some hash \<Rightarrow>
             st\<lparr>pendingHashes := take i (pendingHashes st) @ drop (Suc i) (pendingHashes st),
                archiveHash := hash, step := ManifestStep\<rparr>
         | None \<Rightarrow>
             st\<lparr>pendingHashes := take i (pendingHashes st) @ drop (Suc i) (pendingHashes st)\<rparr>)
      else st)"

definition endowmentMessage :: string where
  "endowmentMessage =
     ''Please enter a valid non-negative USD amount for Endowment, or leave blank.''"

text \<open>\<open>proceedAfterPricing\<close>, up to its \<open>await\<close>.\<close>

definition proceedAfterPricing :: "Platform \<Rightarrow> App \<Rightarrow> App" where
  "proceedAfterPricing pf st =
     (if \<not> acceptedPrice st \<or> jsTrim (vaultName st) = [] then st
      else
        (let trimmed = jsTrim (endowmentUsd st) in
         if trimmed \<noteq> [] then
           (let num = parseFloat pf trimmed in
            if isNaN num \<or> jsLess num (Num 0) then st\<lparr>endowmentError := Some endowmentMessage\<rparr>
            else
              (let usdPerEth' = (if truthy (demoEthPrice st) \<and> jsLess (Num 0) (demoEthPrice st)
                                 then demoEthPrice st else Num 1);
                   usd' = num;
                   eth' = jsDiv usd' usdPerEth'
               in awaitArchiveHash
                    (st\<lparr>lockedEndowment := Some \<lparr>usd = usd', eth = eth', usdPerEth = usdPerEth'\<rparr>\<rparr>)))
         else awaitArchiveHash (st\<lparr>lockedEndowment := None\<rparr>)))"

text \<open>
  The \<open>onChange\<close> of the rate input: \<open>setDemoEthPrice(parseFloat(e.target.value) || 0)\<close>.
\<close>

definition onDemoEthPriceChange :: "Platform \<Rightarrow> string \<Rightarrow> App \<Rightarrow> App" where
  "onDemoEthPriceChange pf text st =
     st\<lparr>demoEthPrice := (if truthy (parseFloat pf text) then parseFloat pf text else Num 0)\<rparr>"

text \<open>
  \<open>startMint\<close> up to its first \<open>await\<close>, and its continuation when the timers have
  run, which stores the token data (random identifiers, the rendered image and JSON:
  \<open>tok\<close>) and shows the vault, whatever the step is by then.
\<close>

definition startMint :: "App \<Rightarrow> App" where
  "startMint st =
     (if visibility st = None \<or> jsTrim (manifestText st) = [] then st
      else st\<lparr>step := MintingStep, pendingMints := pendingMints st + 1\<rparr>)"

definition mintSettled :: "TokenData \<Rightarrow> App \<Rightarrow> App" where
  "mintSettled tok st =
     st\<lparr>tokenData := Some tok, step := VaultStep, showTokenModal := True,
        pendingMints := pendingMints st - 1\<rparr>"

section \<open>Client: the upload executor \<open>uploadToS3\<close>\<close>

text \<open>
  What can go wrong: the start request is answered with a status that is not 2xx
  (\<open>presign failed: <status>\<close>), a request is rejected or its answer is not a plan, or
  a \<open>PUT\<close> is answered with a status that is not 2xx (\<open>upload failed: <relPath>\<close>).
\<close>

datatype uploadError =
  PresignFailed nat
| RequestRejected
| UploadFailed string

text \<open>
  What the executor does besides changing the state: the start request, the \<open>PUT\<close> of
  a file to a signed URL, the log of a failed \<open>PUT\<close> (path, status, status text, body),
  the log of the error that ended the upload, the alert, and the closing log (session,
  number of items, first object key).
\<close>

datatype clientEffect =
  PostUploadStart UploadBody
| PutFile string File
| LogPutFailed string nat string string
| LogUploadError uploadError
| Alert string
| LogUploaded string nat "string option"

text \<open>The payload of \<open>getPresignedPlan\<close>.\<close>

definition fileReqOf :: "DemoFile \<Rightarrow> FileReq" where
  "fileReqOf f =
     \<lparr>reqRelPath = fullPath f,
      reqSize = fileSize (fileObj f),
      reqContentType = Some (if fileType (fileObj f) = [] then ''application/octet-stream''
                             else fileType (fileObj f))\<rparr>"

definition planPayload :: "string \<Rightarrow> DemoFile list \<Rightarrow> UploadBody" where
  "planPayload sid fileList = \<lparr>bodySessionId = Some sid, bodyFiles = Some (map fileReqOf fileList)\<rparr>"

text \<open>\<open>getPresignedPlan\<close>: the answer's session id and items, or the error thrown.\<close>

definition getPresignedPlan ::
  "(UploadBody \<Rightarrow> reply option) \<Rightarrow> string \<Rightarrow> DemoFile list \<Rightarrow> uploadError + string \<times> PresignItem list" where
  "getPresignedPlan server sid fileList =
     (case server (planPayload sid fileList) of
        None \<Rightarrow> Inl RequestRejected
      | Some (ErrorReply n msg) \<Rightarrow> if ok n then Inl RequestRejected else Inl (PresignFailed n)
      | Some (PlanReply sid' items) \<Rightarrow> Inr (sid', items))"

text \<open>
  \<open>Math.round((done / plan.items.length) * 100)\<close> is computed in doubles: the quotient
  is rounded to the nearest double, so is the product, and \<open>Math.round\<close> takes the
  nearest whole number, a half going up. A positive double is a whole number of 53
  bits times a power of two: \<open>normalise\<close> scales the fraction \<open>p / q\<close> by powers of two
  until it lies between \<open>2^52\<close> and \<open>2^53\<close>, \<open>roundHalfEven\<close> rounds it to a whole
  number there (a tie going to the even one), and \<open>toDouble\<close> scales back, giving the
  double as a fraction. The counts are far from the ends of the range of the doubles,
  which are left out here.
\<close>

function normalise :: "nat \<Rightarrow> nat \<Rightarrow> nat \<times> nat" where
  "normalise p q =
     (if p = 0 \<or> q = 0 then (p, q)
      else if p < 2 ^ 52 * q then normalise (2 * p) q
      else if 2 ^ 53 * q \<le> p then normalise p (2 * q)
      else (p, q))"
  by pat_completeness auto
termination
  by (relation "measure (\<lambda>(p, q). (2 ^ 52 * q - p) + (p + 1 - 2 ^ 53 * q))") auto

declare normalise.simps [simp del]

definition roundHalfEven :: "nat \<Rightarrow> nat \<Rightarrow> nat" where
  "roundHalfEven p q =
     (if 2 * (p mod q) < q then p div q
      else if q < 2 * (p mod q) then p div q + 1
      else if even (p div q) then p div q else p div q + 1)"

definition toDouble :: "nat \<Rightarrow> nat \<Rightarrow> nat \<times> nat" where
  "toDouble p q =
     (if p = 0 \<or> q = 0 then (0, 1)
      else case normalise p q of (p', q') \<Rightarrow> (roundHalfEven p' q' * p * q', q * p'))"

text \<open>
  The percentage shown after \<open>n\<close> of \<open>len\<close> items. The loop calls it with
  \<open>1 \<le> n \<le> len\<close> only. It is not always the exact quotient rounded: 23 of 40 is
  shown as 57, the product being the double just below 57.5.
\<close>

definition roundPct :: "nat \<Rightarrow> nat \<Rightarrow> nat" where
  "roundPct n len =
     (case toDouble n len of (a, b) \<Rightarrow>
        case toDouble (100 * a) b of (c, d) \<Rightarrow> (2 * c + d) div (2 * d))"

text \<open>The variables of the loop: \<open>done\<close>, the percentage last shown, and what was done.\<close>

record UploadLoop =
  doneCount :: nat
  pctShown :: nat
  effects :: "clientEffect list"

text \<open>
  \<open>for (const item of plan.items)\<close>. An item without a local file of the same path is
  passed over (\<open>continue\<close>). The result is the error thrown, if any, with the
  variables as the loop left them.
\<close>

fun uploadItems ::
  "(string \<Rightarrow> File \<Rightarrow> PutResponse option) \<Rightarrow> DemoFile list \<Rightarrow> nat \<Rightarrow> PresignItem list \<Rightarrow>
   UploadLoop \<Rightarrow> uploadError option \<times> UploadLoop" where
  "uploadItems put source len [] ls = (None, ls)"
| "uploadItems put source len (item # rest) ls =
     (case find (\<lambda>x. fullPath x = relPath item) source of
        None \<Rightarrow> uploadItems put source len rest ls
      | Some match \<Rightarrow>
          (case put (uploadUrl item) (fileObj match) of
             None \<Rightarrow>
               (Some RequestRejected,
                ls\<lparr>effects := effects ls @ [PutFile (uploadUrl item) (fileObj match)]\<rparr>)
           | Some resp \<Rightarrow>
               if \<not> ok (status resp) then
                 (Some (UploadFailed (relPath item)),
                  ls\<lparr>effects := effects ls @
                     [PutFile (uploadUrl item) (fileObj match),
                      LogPutFailed (relPath item) (status resp) (statusText resp)
                        (case bodyText resp of None \<Rightarrow> [] | Some t \<Rightarrow> t)]\<rparr>)
               else
                 uploadItems put source len rest
                   (ls\<lparr>doneCount := doneCount ls + 1,
                       pctShown := roundPct (doneCount ls + 1) len,
                       effects := effects ls @ [PutFile (uploadUrl item) (fileObj match)]\<rparr>)))"

definition uploadFailedAlert :: string where
  "uploadFailedAlert = ''Upload failed. Check console.''"

text \<open>
  \<open>uploadToS3(source)\<close>: the new state and what was done. The \<open>catch\<close> logs the error,
  alerts and clears \<open>uploadedItems\<close>; it leaves \<open>uploadPct\<close> as the loop set it.
\<close>

definition uploadToS3 :: "Platform \<Rightarrow> DemoFile list \<Rightarrow> App \<Rightarrow> App \<times> clientEffect list" where
  "uploadToS3 pf source st =
     (if length source = 0 then (st, [])
      else
        (let asked = PostUploadStart (planPayload (sessionId st) source) in
         case getPresignedPlan (api pf) (sessionId st) source of
           Inl e \<Rightarrow>
             (st\<lparr>uploading := False, uploadPct := 0, uploadedItems := None\<rparr>,
              [asked, LogUploadError e, Alert uploadFailedAlert])
         | Inr (sid', items) \<Rightarrow>
             (case uploadItems (fetchPut pf) source (length items) items
                     \<lparr>doneCount = 0, pctShown = 0, effects = []\<rparr> of
                (Some e, ls) \<Rightarrow>
                  (st\<lparr>uploading := False, uploadPct := pctShown ls, uploadedItems := None\<rparr>,
                   asked # effects ls @ [LogUploadError e, Alert uploadFailedAlert])
              | (None, ls) \<Rightarrow>
                  (st\<lparr>uploading := False, uploadPct := pctShown ls, uploadedItems := Some items\<rparr>,
                   asked # effects ls @
                     [LogUploaded (sessionId st) (length items)
                        (case items of [] \<Rightarrow> None | item0 # others \<Rightarrow> Some (objectKey item0))]))))"

text \<open>The API of the platform when it is this repository's handler.\<close>

definition serverApi ::
  "string \<Rightarrow> (string \<Rightarrow> string \<Rightarrow> string option) \<Rightarrow> string \<Rightarrow> UploadBody \<Rightarrow> reply option" where
  "serverApi BUCKET getSignedUrl randomHex body = Some (fst (uploadStart BUCKET getSignedUrl randomHex body))"

section \<open>Client: the controls of the flow\<close>

text \<open>
  What the user (or a pending continuation) can do. The controls of the flow are on
  screen in one step each, and the two \<open>Continue\<close> buttons and the mint button are
  disabled until their fields are filled. The token modal is on screen while it is
  switched on and there is token data, and the entry to the flow (\<open>setStarted(true)\<close>)
  is always there. The two handlers that wait are cut at their \<open>await\<close>: accepting the
  pricing runs up to the hash, and the end of a hash in flight is a step of its own
  (\<open>HashSettled i\<close>); the mint runs up to its timers, and their end is a step of its own
  (\<open>MintSettled\<close>). Nothing cancels what is in flight, so these ends come whatever was
  clicked in between. The upload that a drop starts is taken as one step; it writes
  \<open>uploading\<close>, \<open>uploadPct\<close> and \<open>uploadedItems\<close> only.
\<close>

datatype Event =
  PickProduct Product
| SetEscrowYears nat
| FilePick "DemoFile list"
| Drop "DemoFile list"
| SetVaultName string
| ContinueToPricing
| ResetFlow
| SetAcceptedPrice bool
| SetEndowmentUsd string
| SetDemoEthPrice string
| ProceedAfterPricing
| HashSettled nat
| BackToUpload
| SetManifest string
| SetVisibility VaultVisibility
| StartMint
| BackToPricing
| MintSettled TokenData
| ViewToken
| CloseTokenModal
| StartBuild

fun dispatch :: "Platform \<Rightarrow> Event \<Rightarrow> App \<Rightarrow> App" where
  "dispatch pf (PickProduct p) st =
     (if step st = SelectProductStep then st\<lparr>productChoice := Some p, step := UploadStep\<rparr> else st)"
| "dispatch pf (SetEscrowYears y) st =
     (if step st = SelectProductStep \<and> productChoice st = Some PermanencePlus
      then st\<lparr>escrowYears := y\<rparr> else st)"
| "dispatch pf (FilePick picked) st =
     (if step st = UploadStep \<and> length picked \<noteq> 0 then st\<lparr>files := picked\<rparr> else st)"
| "dispatch pf (Drop picked) st =
     (if step st = UploadStep
      then fst (uploadToS3 pf picked (if length picked \<noteq> 0 then st\<lparr>files := picked\<rparr> else st))
      else st)"
| "dispatch pf (SetVaultName n) st =
     (if step st = UploadStep then st\<lparr>vaultName := n\<rparr> else st)"
| "dispatch pf ContinueToPricing st =
     (if step st = UploadStep \<and> length (files st) \<noteq> 0 \<and> jsTrim (vaultName st) \<noteq> []
      then st\<lparr>step := PricingStep\<rparr> else st)"
| "dispatch pf ResetFlow st =
     (if step st = UploadStep \<or> step st = VaultStep then resetFlow st else st)"
| "dispatch pf (SetAcceptedPrice b) st =
     (if step st = PricingStep \<and> productChoice st \<noteq> None then st\<lparr>acceptedPrice := b\<rparr> else st)"
| "dispatch pf (SetEndowmentUsd v) st =
     (if step st = PricingStep \<and> productChoice st \<noteq> None
      then st\<lparr>endowmentUsd := v, endowmentError := None\<rparr> else st)"
| "dispatch pf (SetDemoEthPrice v) st =
     (if step st = PricingStep \<and> productChoice st \<noteq> None
      then onDemoEthPriceChange pf v st else st)"
| "dispatch pf ProceedAfterPricing st =
     (if step st = PricingStep \<and> productChoice st \<noteq> None then proceedAfterPricing pf st else st)"
| "dispatch pf (HashSettled i) st = hashSettled pf i st"
| "dispatch pf BackToUpload st =
     (if step st = PricingStep \<and> productChoice st \<noteq> None then st\<lparr>step := UploadStep\<rparr> else st)"
| "dispatch pf (SetManifest m) st =
     (if step st = ManifestStep then st\<lparr>manifestText := m\<rparr> else st)"
| "dispatch pf (SetVisibility v) st =
     (if step st = ManifestStep then st\<lparr>visibility := Some v\<rparr> else st)"
| "dispatch pf StartMint st =
     (if step st = ManifestStep then startMint st else st)"
| "dispatch pf BackToPricing st =
     (if step st = ManifestStep then st\<lparr>step := PricingStep\<rparr> else st)"
| "dispatch pf (MintSettled tok) st =
     (if 0 < pendingMints st then mintSettled tok st else st)"
| "dispatch pf ViewToken st =
     (if step st = VaultStep then st\<lparr>showTokenModal := True\<rparr> else st)"
| "dispatch pf CloseTokenModal st =
     (if showTokenModal st \<and> tokenData st \<noteq> None then st\<lparr>showTokenModal := False\<rparr> else st)"
| "dispatch pf StartBuild st = st\<lparr>started := True\<rparr>"

text \<open>
  A sample platform for concrete runs: \<open>parseFloat\<close> on the texts used below, the
  code-unit comparator, the identity for the digest, this repository's handler behind
  the API with an issuer that grants, and a storage that accepts every \<open>PUT\<close>.
\<close>

definition parseFloatSample :: "string \<Rightarrow> jsnum" where
  "parseFloatSample s =
     (if s = ''100.00'' then Num 100
      else if s = ''2500'' then Num 2500
      else if s = ''4000'' then Num 4000
      else if s = ''-5'' then Num (- 5)
      else if s = ''Infinity'' then PosInf
      else NaN)"

definition acceptPut :: "string \<Rightarrow> File \<Rightarrow> PutResponse option" where
  "acceptPut url f = Some \<lparr>status = 200, statusText = ''OK'', bodyText = Some []\<rparr>"

definition samplePlatform :: Platform where
  "samplePlatform =
     \<lparr>parseFloat = parseFloatSample, localeCompare = ordinalCompare, sha256 = (\<lambda>b. b),
      api = serverApi ''bk'' grantAll ''0011223344556677'', fetchPut = acceptPut,
      readable = (\<lambda>f. True)\<rparr>"

text \<open>The same platform with files that cannot be read any more.\<close>

definition unreadablePlatform :: Platform where
  "unreadablePlatform = samplePlatform\<lparr>readable := (\<lambda>f. False)\<rparr>"

text \<open>A sample state at the pricing step, pricing accepted, with the given endowment text.\<close>

definition pricingSample :: "string \<Rightarrow> App" where
  "pricingSample amount =
     (initialApp ''00112233'')\<lparr>started := True, productChoice := Some Heirloom,
        files := [mkFile ''a.txt'' ''abc''], vaultName := ''My vault'', acceptedPrice := True,
        endowmentUsd := amount, step := PricingStep\<rparr>"

text \<open>
  A sample batch of five: the plan for the files \<open>f1\<close> to \<open>f5\<close>, and a storage that
  answers 403 to the \<open>PUT\<close> of the third and 200 to the others.
\<close>

definition batchItem :: "string \<Rightarrow> PresignItem" where
  "batchItem n =
     \<lparr>relPath = n, objectKey = ''demo/00112233/'' @ n, s3Uri = ''s3://bk/demo/00112233/'' @ n,
      uploadUrl = ''https://bk.s3.amazonaws.com/demo/00112233/'' @ n,
      contentType = ''application/octet-stream''\<rparr>"

definition batchFiles :: "DemoFile list" where
  "batchFiles = [mkFile ''f1'' ''1'', mkFile ''f2'' ''2'', mkFile ''f3'' ''3'', mkFile ''f4'' ''4'',
                 mkFile ''f5'' ''5'']"

definition denyThird :: "string \<Rightarrow> File \<Rightarrow> PutResponse option" where
  "denyThird url f =
     (if url = uploadUrl (batchItem ''f3'')
      then Some \<lparr>status = 403, statusText = ''Forbidden'', bodyText = Some ''AccessDenied''\<rparr>
      else Some \<lparr>status = 200, statusText = ''OK'', bodyText = Some []\<rparr>)"

definition batchPlatform :: Platform where
  "batchPlatform =
     \<lparr>parseFloat = parseFloatSample, localeCompare = ordinalCompare, sha256 = (\<lambda>b. b),
      api = (\<lambda>body. Some (PlanReply ''00112233'' (map batchItem [''f1'', ''f2'', ''f3'', ''f4'', ''f5'']))),
      fetchPut = denyThird, readable = (\<lambda>f. True)\<rparr>"

text \<open>
  Another batch on the same plan: the first file is not among the local files, and
  the storage answers 403 to the \<open>PUT\<close> of the fourth.
\<close>

definition denyFourth :: "string \<Rightarrow> File \<Rightarrow> PutResponse option" where
  "denyFourth url f =
     (if url = uploadUrl (batchItem ''f4'')
      then Some \<lparr>status = 403, statusText = ''Forbidden'', bodyText = Some ''AccessDenied''\<rparr>
      else Some \<lparr>status = 200, statusText = ''OK'', bodyText = Some []\<rparr>)"

definition laterBatchPlatform :: Platform where
  "laterBatchPlatform = batchPlatform\<lparr>fetchPut := denyFourth\<rparr>"

text \<open>Two sample drops: a dot file beside a plain file, and a dot file beside its namesake.\<close>

definition dotFiles :: "DemoFile list" where
  "dotFiles = [mkFile ''.env'' ''SECRET'', mkFile ''notes.txt'' ''hello'']"

definition namesakeFiles :: "DemoFile list" where
  "namesakeFiles = [mkFile ''.env'' ''SECRET'', mkFile ''env'' ''plain'']"
section \<open>Properties of the archive digest\<close>

lemma set_insertByPath: "set (insertByPath cmp x ys) = insert x (set ys)"
  by (induction ys) auto

lemma mset_insertByPath: "mset (insertByPath cmp x ys) = add_mset x (mset ys)"
  by (induction ys) auto

lemma mset_sortByPath: "mset (sortByPath cmp xs) = mset xs"
  by (induction xs) (simp_all add: sortByPath_def mset_insertByPath)

lemma notAfter_total: "consistentComparator cmp \<Longrightarrow> notAfter cmp a b \<or> notAfter cmp b a"
  unfolding consistentComparator_def notAfter_def
  by (metis not_le less_imp_le)

lemma notAfter_trans:
  "consistentComparator cmp \<Longrightarrow> notAfter cmp a b \<Longrightarrow> notAfter cmp b c \<Longrightarrow> notAfter cmp a c"
  unfolding consistentComparator_def notAfter_def by blast

lemma notAfter_both:
  "consistentComparator cmp \<Longrightarrow> notAfter cmp a b \<Longrightarrow> notAfter cmp b a \<Longrightarrow>
   cmp (fullPath a) (fullPath b) = 0"
  unfolding consistentComparator_def notAfter_def
  by (metis order_le_less not_less)

lemma sorted_insertByPath:
  assumes c: "consistentComparator cmp" and s: "sorted_wrt (notAfter cmp) ys"
  shows "sorted_wrt (notAfter cmp) (insertByPath cmp x ys)"
  using s
proof (induction ys)
  case Nil
  then show ?case by simp
next
  case (Cons y ys)
  show ?case
  proof (cases "cmp (fullPath x) (fullPath y) \<le> 0")
    case True
    then have xy: "notAfter cmp x y" by (simp add: notAfter_def)
    have "\<forall>z\<in>set ys. notAfter cmp x z"
      using Cons.prems xy notAfter_trans [OF c] by auto
    with True xy Cons.prems show ?thesis by simp
  next
    case False
    then have "notAfter cmp y x"
      using notAfter_total [OF c, of x y] by (simp add: notAfter_def)
    with False Cons show ?thesis by (auto simp: set_insertByPath)
  qed
qed

lemma sorted_sortByPath:
  "consistentComparator cmp \<Longrightarrow> sorted_wrt (notAfter cmp) (sortByPath cmp xs)"
  by (induction xs) (simp_all add: sortByPath_def sorted_insertByPath)

text \<open>
  Two sorted lists with the same entries are the same list, as long as entries that
  are each "not after" the other are one and the same entry.
\<close>

lemma sorted_unique:
  assumes "sorted_wrt R xs" "sorted_wrt R ys" "mset xs = mset ys"
    and "\<forall>a\<in>set xs. \<forall>b\<in>set xs. R a b \<and> R b a \<longrightarrow> a = b"
  shows "xs = ys"
  using assms
proof (induction xs arbitrary: ys)
  case Nil
  then show ?case by simp
next
  case (Cons x xs)
  then obtain y ys' where ys: "ys = y # ys'" by (cases ys) auto
  have sets: "set (x # xs) = set (y # ys')"
    using Cons.prems(3) ys by (metis mset_eq_setD)
  have xy: "x = y"
  proof (rule ccontr)
    assume ne: "x \<noteq> y"
    then have "x \<in> set ys'" "y \<in> set xs" using sets by auto
    then have "R y x" "R x y" using Cons.prems(1,2) ys by auto
    moreover have "y \<in> set (x # xs)" using sets by simp
    ultimately show False using Cons.prems(4) ne by auto
  qed
  then have "mset xs = mset ys'" using Cons.prems(3) ys by simp
  moreover have "sorted_wrt R xs" "sorted_wrt R ys'" using Cons.prems(1,2) ys by auto
  moreover have "\<forall>a\<in>set xs. \<forall>b\<in>set xs. R a b \<and> R b a \<longrightarrow> a = b"
    using Cons.prems(4) by auto
  ultimately have "xs = ys'" using Cons.IH by blast
  with xy ys show ?case by simp
qed

lemma blobParts_pathAndBytes:
  assumes "map pathAndBytes xs = map pathAndBytes ys"
  shows "blobParts xs = blobParts ys"
proof -
  have parts: "blobParts zs =
      concat (map (\<lambda>pb. [fst pb, [CHR 0x0A], snd pb]) (map pathAndBytes zs))" for zs
    by (simp add: blobParts_def pathAndBytes_def comp_def)
  show ?thesis
    unfolding parts [of xs] parts [of ys] assms ..
qed

lemma sortByPath_pathAndBytes:
  assumes c: "consistentComparator cmp" and p: "mset ys = mset xs"
    and d: "\<forall>a\<in>set xs. \<forall>b\<in>set xs. cmp (fullPath a) (fullPath b) = 0 \<longrightarrow>
              fullPath a = fullPath b \<and> fileBytes (fileObj a) = fileBytes (fileObj b)"
  shows "map pathAndBytes (sortByPath cmp ys) = map pathAndBytes (sortByPath cmp xs)"
proof (rule sorted_unique [where R = "\<lambda>p q. cmp (fst p) (fst q) \<le> 0"])
  have R: "(\<lambda>a b. cmp (fst (pathAndBytes a)) (fst (pathAndBytes b)) \<le> 0) = notAfter cmp"
    by (simp add: pathAndBytes_def notAfter_def fun_eq_iff)
  show "sorted_wrt (\<lambda>p q. cmp (fst p) (fst q) \<le> 0) (map pathAndBytes (sortByPath cmp ys))"
    unfolding sorted_wrt_map R by (rule sorted_sortByPath [OF c])
  show "sorted_wrt (\<lambda>p q. cmp (fst p) (fst q) \<le> 0) (map pathAndBytes (sortByPath cmp xs))"
    unfolding sorted_wrt_map R by (rule sorted_sortByPath [OF c])
  show "mset (map pathAndBytes (sortByPath cmp ys)) = mset (map pathAndBytes (sortByPath cmp xs))"
    by (simp add: mset_sortByPath p)
  have sets: "set (sortByPath cmp ys) = set xs"
    by (metis mset_sortByPath p mset_eq_setD)
  show "\<forall>p\<in>set (map pathAndBytes (sortByPath cmp ys)).
          \<forall>q\<in>set (map pathAndBytes (sortByPath cmp ys)).
            cmp (fst p) (fst q) \<le> 0 \<and> cmp (fst q) (fst p) \<le> 0 \<longrightarrow> p = q"
  proof (intro ballI impI)
    fix p q
    assume "p \<in> set (map pathAndBytes (sortByPath cmp ys))"
      and "q \<in> set (map pathAndBytes (sortByPath cmp ys))"
      and le: "cmp (fst p) (fst q) \<le> 0 \<and> cmp (fst q) (fst p) \<le> 0"
    then obtain a b where ab: "a \<in> set xs" "b \<in> set xs" "p = pathAndBytes a" "q = pathAndBytes b"
      using sets by auto
    from le ab have "notAfter cmp a b" "notAfter cmp b a"
      by (simp_all add: notAfter_def pathAndBytes_def)
    then have "cmp (fullPath a) (fullPath b) = 0"
      by (rule notAfter_both [OF c])
    with d ab show "p = q" by (simp add: pathAndBytes_def)
  qed
qed

lemma ordinalCompare_refl: "ordinalCompare a a = 0"
  by (induction a) auto

lemma ordinalCompare_flip: "(ordinalCompare a b < 0) = (0 < ordinalCompare b a)"
  by (induction a b rule: ordinalCompare.induct) auto

lemma ordinalCompare_Cons_le:
  "(ordinalCompare (x # xs) (y # ys) \<le> 0) =
   ((of_char x :: nat) < of_char y \<or> (x = y \<and> ordinalCompare xs ys \<le> 0))"
proof (cases "(of_char x :: nat) < of_char y")
  case True
  then show ?thesis by simp
next
  case False
  note nlt = this
  show ?thesis
  proof (cases "(of_char y :: nat) < of_char x")
    case True
    then have "x \<noteq> y" by auto
    with True nlt show ?thesis by simp
  next
    case False
    with nlt have "(of_char x :: nat) = of_char y" by simp
    then have "x = y" by (rule of_char_eqI)
    with False nlt show ?thesis by simp
  qed
qed

lemma ordinalCompare_trans:
  "ordinalCompare a b \<le> 0 \<Longrightarrow> ordinalCompare b c \<le> 0 \<Longrightarrow> ordinalCompare a c \<le> 0"
proof (induction a b arbitrary: c rule: ordinalCompare.induct)
  case 1
  then show ?case by simp
next
  case (2 y ys)
  then show ?case by (cases c) simp_all
next
  case (3 x xs)
  then show ?case by simp
next
  case (4 x xs y ys)
  show ?case
  proof (cases c)
    case Nil
    with "4.prems" show ?thesis by simp
  next
    case (Cons z zs)
    have xy: "(of_char x :: nat) < of_char y \<or> (x = y \<and> ordinalCompare xs ys \<le> 0)"
      using "4.prems"(1) by (simp only: ordinalCompare_Cons_le)
    have yz: "(of_char y :: nat) < of_char z \<or> (y = z \<and> ordinalCompare ys zs \<le> 0)"
      using "4.prems"(2) unfolding Cons by (simp only: ordinalCompare_Cons_le)
    have "(of_char x :: nat) < of_char z \<or> (x = z \<and> ordinalCompare xs zs \<le> 0)"
    proof (cases "x = y \<and> y = z")
      case True
      then have "ordinalCompare xs ys \<le> 0" "ordinalCompare ys zs \<le> 0"
        using xy yz by auto
      then have "ordinalCompare xs zs \<le> 0"
        using "4.IH" [of zs] True by simp
      with True show ?thesis by simp
    next
      case False
      then show ?thesis using xy yz by (metis less_trans)
    qed
    then show ?thesis unfolding Cons by (simp only: ordinalCompare_Cons_le)
  qed
qed

lemma consistent_ordinalCompare: "consistentComparator ordinalCompare"
  unfolding consistentComparator_def
  using ordinalCompare_refl ordinalCompare_flip ordinalCompare_trans by blast

text \<open>
  C1, as stated, at two entries with one path and different bytes: the sort is stable,
  equal paths keep their input order, and the two orders of the list are hashed as
  different byte streams (the hash taken as the identity, the extreme of an injective
  hash).
\<close>

theorem hashFilesSHA256_order_counterexample:
  "mset [mkFile ''a'' ''y'', mkFile ''a'' ''x''] = mset [mkFile ''a'' ''x'', mkFile ''a'' ''y''] \<and>
   hashFilesSHA256 (\<lambda>b. b) ordinalCompare [mkFile ''a'' ''y'', mkFile ''a'' ''x''] \<noteq>
   hashFilesSHA256 (\<lambda>b. b) ordinalCompare [mkFile ''a'' ''x'', mkFile ''a'' ''y'']"
  by (simp add: hashFilesSHA256_def archiveBuffer_def sortByPath_def blobParts_def mkFile_def)

text \<open>
  C1, amended: for a consistent comparator, and a list in which two entries whose
  paths compare as equal have the same path and the same bytes, every permutation of
  the list has the same archive digest.
\<close>

theorem hashFilesSHA256_order_independent:
  assumes "consistentComparator cmp" and "mset ys = mset xs"
    and "\<forall>a\<in>set xs. \<forall>b\<in>set xs. cmp (fullPath a) (fullPath b) = 0 \<longrightarrow>
           fullPath a = fullPath b \<and> fileBytes (fileObj a) = fileBytes (fileObj b)"
  shows "hashFilesSHA256 sha cmp ys = hashFilesSHA256 sha cmp xs"
  using blobParts_pathAndBytes [OF sortByPath_pathAndBytes [OF assms]]
  by (simp add: hashFilesSHA256_def archiveBuffer_def)

theorem hashFilesSHA256_order_independent_witness:
  "consistentComparator ordinalCompare \<and>
   mset [mkFile ''b'' ''2'', mkFile ''a'' ''1'', \<lparr>fileObj = \<lparr>fileName = ''copy'', fileType = ''text/plain'', fileBytes = ''1''\<rparr>, fullPath = ''a''\<rparr>] =
     mset [mkFile ''a'' ''1'', \<lparr>fileObj = \<lparr>fileName = ''copy'', fileType = ''text/plain'', fileBytes = ''1''\<rparr>, fullPath = ''a''\<rparr>, mkFile ''b'' ''2''] \<and>
   hashFilesSHA256 (\<lambda>b. b) ordinalCompare [mkFile ''b'' ''2'', mkFile ''a'' ''1'', \<lparr>fileObj = \<lparr>fileName = ''copy'', fileType = ''text/plain'', fileBytes = ''1''\<rparr>, fullPath = ''a''\<rparr>] =
   hashFilesSHA256 (\<lambda>b. b) ordinalCompare [mkFile ''a'' ''1'', \<lparr>fileObj = \<lparr>fileName = ''copy'', fileType = ''text/plain'', fileBytes = ''1''\<rparr>, fullPath = ''a''\<rparr>, mkFile ''b'' ''2'']"
  using hashFilesSHA256_order_independent
    [where cmp = ordinalCompare and sha = "\<lambda>b. b"
       and ys = "[mkFile ''b'' ''2'', mkFile ''a'' ''1'', \<lparr>fileObj = \<lparr>fileName = ''copy'', fileType = ''text/plain'', fileBytes = ''1''\<rparr>, fullPath = ''a''\<rparr>]"
       and xs = "[mkFile ''a'' ''1'', \<lparr>fileObj = \<lparr>fileName = ''copy'', fileType = ''text/plain'', fileBytes = ''1''\<rparr>, fullPath = ''a''\<rparr>, mkFile ''b'' ''2'']"]
    consistent_ordinalCompare
  by (simp add: mkFile_def)

text \<open>
  C2 at a failing input. The vault \<open>{a: (empty), b: "b\n"}\<close> and the vault
  \<open>{a: "b\n", b: (empty)}\<close> hold the same two byte contents under exchanged paths, and
  both are hashed as the byte stream \<open>"a\nb\nb\n"\<close>: the path and the newline are put
  in front of the bytes with nothing that marks where the bytes end. So the two vaults
  have the same digest, whatever the hash function is.
\<close>

theorem hashFilesSHA256_path_collision:
  "[mkFile ''a'' [], mkFile ''b'' [CHR ''b'', CHR 0x0A]] \<noteq>
     [mkFile ''a'' [CHR ''b'', CHR 0x0A], mkFile ''b'' []] \<and>
   archiveBuffer ordinalCompare [mkFile ''a'' [], mkFile ''b'' [CHR ''b'', CHR 0x0A]] =
     [CHR ''a'', CHR 0x0A, CHR ''b'', CHR 0x0A, CHR ''b'', CHR 0x0A] \<and>
   hashFilesSHA256 sha ordinalCompare [mkFile ''a'' [], mkFile ''b'' [CHR ''b'', CHR 0x0A]] =
   hashFilesSHA256 sha ordinalCompare [mkFile ''a'' [CHR ''b'', CHR 0x0A], mkFile ''b'' []]"
  by (simp add: hashFilesSHA256_def archiveBuffer_def sortByPath_def blobParts_def mkFile_def)

section \<open>Properties of the path sanitization\<close>

text \<open>What does hold: a sanitized path never starts with a dot or a slash.\<close>

lemma removeDotDotSlash_head:
  "s \<noteq> [] \<Longrightarrow> hd s \<noteq> CHR ''.'' \<Longrightarrow>
   removeDotDotSlash s \<noteq> [] \<and> hd (removeDotDotSlash s) = hd s"
  by (cases s rule: removeDotDotSlash.cases) auto

lemma safePath_no_leading_separator:
  "safePath p = [] \<or> (hd (safePath p) \<noteq> CHR ''/'' \<and> hd (safePath p) \<noteq> CHR ''.'')"
proof (cases "stripLeading p")
  case Nil
  then show ?thesis by (simp add: safePath_def)
next
  case (Cons c cs)
  have "dropWhile (\<lambda>c. c = CHR ''.'' \<or> c = CHR ''/'') p \<noteq> []"
    using Cons by (simp add: stripLeading_def)
  then have "\<not> (hd (stripLeading p) = CHR ''.'' \<or> hd (stripLeading p) = CHR ''/'')"
    unfolding stripLeading_def by (rule hd_dropWhile)
  then have "c \<noteq> CHR ''.'' \<and> c \<noteq> CHR ''/''"
    using Cons by simp
  with Cons removeDotDotSlash_head [of "stripLeading p"] show ?thesis
    by (simp add: safePath_def)
qed

lemma safePath_etc_passwd: "safePath ''../../etc/passwd'' = ''etc/passwd''"
  by (simp add: safePath_def stripLeading_def)

text \<open>
  C3 at a failing input. In \<open>a/....//b\<close> the only match of \<open>../\<close> is the one in the
  middle of the dots; removing it joins \<open>a/..\<close> and \<open>/b\<close>, and the result is not
  scanned again: the sanitized path is \<open>a/../b\<close>, which has a \<open>..\<close> segment, and the
  object key is \<open>demo/<sid>/a/../b\<close>. Three such groups give a key with three \<open>..\<close>
  segments behind one directory, which names a place outside \<open>demo/<sid>/\<close>. (A path
  that ends in \<open>/..\<close> keeps its last segment as well.)
\<close>

theorem safePath_keeps_dotdot_segment:
  "safePath ''a/....//b'' = ''a/../b'' \<and>
   hasDotDotSegment (safePath ''a/....//b'') \<and>
   deriveKey sid ''a/....//b'' = ''demo/'' @ sid @ ''/a/../b'' \<and>
   deriveKey sid ''a/....//....//....//etc/passwd'' = ''demo/'' @ sid @ ''/a/../../../etc/passwd'' \<and>
   safePath ''a/..'' = ''a/..''"
  by (simp add: hasDotDotSegment_def deriveKey_def safePath_def stripLeading_def)


section \<open>Properties of the upload-session handler\<close>

lemma collectItems_granted:
  "\<forall>f\<in>set fs. sign f \<noteq> None \<Longrightarrow>
   collectItems B sid (map (\<lambda>f. (f, sign f)) fs) =
     Some (map (\<lambda>f. presignItem B sid f (the (sign f))) fs)"
  by (induction fs) auto

lemma collectItems_refused:
  "\<exists>f\<in>set fs. sign f = None \<Longrightarrow> collectItems B sid (map (\<lambda>f. (f, sign f)) fs) = None"
proof (induction fs)
  case Nil
  then show ?case by simp
next
  case (Cons f fs)
  then show ?case by (cases "sign f") (auto split: option.splits)
qed

text \<open>
  C4, as stated, at a non-empty list and an issuer that refuses: the handler asks for
  the grant, logs, and answers 500 \<open>presign_failed\<close>; no item is returned.
\<close>

theorem uploadStart_refused_counterexample:
  "uploadStart ''bk'' refuseAll ''0011223344556677''
     \<lparr>bodySessionId = Some ''abc123'', bodyFiles = Some
       [\<lparr>reqRelPath = ''a.txt'', reqSize = 3, reqContentType = None\<rparr>]\<rparr> =
   (ErrorReply 500 ''presign_failed'', [GetSignedUrl ''bk'' ''demo/abc123/a.txt'', ConsoleError])"
  by (simp add: uploadStart_def chooseSid_def sidPattern_def sidChars_def refuseAll_def
      deriveKey_def safePath_def stripLeading_def)

text \<open>
  C4, amended. With a missing or empty \<open>files\<close> list the handler answers 400
  \<open>no_files\<close> and does nothing else (no random bytes drawn, no grant requested, no
  log). With a non-empty list whose grant requests all succeed it answers the plan:
  one item per file, in order, item \<open>i\<close> carrying the sanitized path and the key of
  file \<open>i\<close>. When a grant request is refused it answers 500 \<open>presign_failed\<close>.
\<close>

theorem uploadStart_empty_or_granted:
  "(bodyFiles body = None \<or> bodyFiles body = Some [] \<longrightarrow>
      uploadStart B sign rnd body = (ErrorReply 400 ''no_files'', [])) \<and>
   (\<forall>fs. bodyFiles body = Some fs \<and> fs \<noteq> [] \<and>
         (\<forall>f\<in>set fs. sign B (deriveKey (fst (chooseSid rnd (bodySessionId body))) (reqRelPath f)) \<noteq> None) \<longrightarrow>
      (\<exists>items. fst (uploadStart B sign rnd body) =
                  PlanReply (fst (chooseSid rnd (bodySessionId body))) items \<and>
               length items = length fs \<and>
               map relPath items = map (\<lambda>f. safePath (reqRelPath f)) fs \<and>
               map objectKey items =
                 map (\<lambda>f. deriveKey (fst (chooseSid rnd (bodySessionId body))) (reqRelPath f)) fs)) \<and>
   (\<forall>fs. bodyFiles body = Some fs \<and>
         (\<exists>f\<in>set fs. sign B (deriveKey (fst (chooseSid rnd (bodySessionId body))) (reqRelPath f)) = None) \<longrightarrow>
      fst (uploadStart B sign rnd body) = ErrorReply 500 ''presign_failed'')"
proof (intro conjI allI impI)
  assume "bodyFiles body = None \<or> bodyFiles body = Some []"
  then show "uploadStart B sign rnd body = (ErrorReply 400 ''no_files'', [])"
    by (auto simp: uploadStart_def)
next
  fix fs
  let ?sid = "fst (chooseSid rnd (bodySessionId body))"
  let ?sign = "\<lambda>f. sign B (deriveKey ?sid (reqRelPath f))"
  assume a: "bodyFiles body = Some fs \<and> fs \<noteq> [] \<and> (\<forall>f\<in>set fs. ?sign f \<noteq> None)"
  then have c: "collectItems B ?sid (map (\<lambda>f. (f, ?sign f)) fs) =
      Some (map (\<lambda>f. presignItem B ?sid f (the (?sign f))) fs)"
    using collectItems_granted [of fs ?sign B ?sid] by simp
  have "fst (uploadStart B sign rnd body) =
      PlanReply ?sid (map (\<lambda>f. presignItem B ?sid f (the (?sign f))) fs)"
    using a c by (simp add: uploadStart_def split_beta)
  then show "\<exists>items. fst (uploadStart B sign rnd body) = PlanReply ?sid items \<and>
      length items = length fs \<and>
      map relPath items = map (\<lambda>f. safePath (reqRelPath f)) fs \<and>
      map objectKey items = map (\<lambda>f. deriveKey ?sid (reqRelPath f)) fs"
    by (simp add: presignItem_def comp_def)
next
  fix fs
  let ?sid = "fst (chooseSid rnd (bodySessionId body))"
  let ?sign = "\<lambda>f. sign B (deriveKey ?sid (reqRelPath f))"
  assume a: "bodyFiles body = Some fs \<and> (\<exists>f\<in>set fs. ?sign f = None)"
  then have c: "collectItems B ?sid (map (\<lambda>f. (f, ?sign f)) fs) = None"
    using collectItems_refused [of fs ?sign B ?sid] by simp
  from a have "fs \<noteq> []" by auto
  with a c show "fst (uploadStart B sign rnd body) = ErrorReply 500 ''presign_failed''"
    by (simp add: uploadStart_def split_beta)
qed

theorem uploadStart_empty_or_granted_witness:
  "uploadStart ''bk'' grantAll ''0011223344556677''
     \<lparr>bodySessionId = None, bodyFiles = Some []\<rparr> = (ErrorReply 400 ''no_files'', []) \<and>
   (\<exists>items. fst (uploadStart ''bk'' grantAll ''0011223344556677''
        \<lparr>bodySessionId = Some ''abc123'', bodyFiles = Some
          [\<lparr>reqRelPath = ''docs/a.txt'', reqSize = 3, reqContentType = None\<rparr>,
           \<lparr>reqRelPath = ''../b.txt'', reqSize = 5, reqContentType = Some ''text/plain''\<rparr>]\<rparr>) =
        PlanReply ''abc123'' items \<and>
      length items = Suc (Suc 0) \<and>
      map relPath items = [''docs/a.txt'', ''b.txt''] \<and>
      map objectKey items = [''demo/abc123/docs/a.txt'', ''demo/abc123/b.txt'']) \<and>
   fst (uploadStart ''bk'' refuseAll ''0011223344556677''
     \<lparr>bodySessionId = None, bodyFiles = Some
       [\<lparr>reqRelPath = ''a.txt'', reqSize = 3, reqContentType = None\<rparr>]\<rparr>) =
     ErrorReply 500 ''presign_failed''"
  using
    uploadStart_empty_or_granted [of "\<lparr>bodySessionId = None, bodyFiles = Some []\<rparr>"
      "''bk''" grantAll "''0011223344556677''"]
    uploadStart_empty_or_granted [of "\<lparr>bodySessionId = Some ''abc123'', bodyFiles = Some
          [\<lparr>reqRelPath = ''docs/a.txt'', reqSize = 3, reqContentType = None\<rparr>,
           \<lparr>reqRelPath = ''../b.txt'', reqSize = 5, reqContentType = Some ''text/plain''\<rparr>]\<rparr>"
      "''bk''" grantAll "''0011223344556677''"]
    uploadStart_empty_or_granted [of "\<lparr>bodySessionId = None, bodyFiles = Some
       [\<lparr>reqRelPath = ''a.txt'', reqSize = 3, reqContentType = None\<rparr>]\<rparr>"
      "''bk''" refuseAll "''0011223344556677''"]
  by (simp add: chooseSid_def sidPattern_def sidChars_def grantAll_def refuseAll_def
      deriveKey_def safePath_def stripLeading_def)

section \<open>Properties of the two hashers\<close>

lemma length_slice_chunk:
  "offset < length bytes \<Longrightarrow>
   length (slice bytes offset (min (offset + chunkSize) (length bytes))) =
     min chunkSize (length bytes - offset)"
  by (auto simp: slice_def)

lemma chunkSize_pos: "0 < chunkSize"
  by (simp add: chunkSize_def)

lemma sha256HexLoop_invariant:
  "offset \<le> length bytes \<Longrightarrow>
   (\<forall>b\<in>set bufs. 0 < length b \<and> length b \<le> chunkSize) \<Longrightarrow>
   (\<forall>b\<in>set (snd (sha256HexLoop update bytes offset hasher bufs)).
       0 < length b \<and> length b \<le> chunkSize) \<and>
   concat (snd (sha256HexLoop update bytes offset hasher bufs)) = concat bufs @ drop offset bytes \<and>
   (\<forall>h0. hasher = foldl update h0 bufs \<longrightarrow>
      fst (sha256HexLoop update bytes offset hasher bufs) =
        foldl update h0 (snd (sha256HexLoop update bytes offset hasher bufs)))"
proof (induction update bytes offset hasher bufs rule: sha256HexLoop.induct)
  case (1 update bytes offset hasher bufs)
  show ?case
  proof (cases "offset < length bytes")
    case False
    then have stop: "sha256HexLoop update bytes offset hasher bufs = (hasher, bufs)"
      by (subst sha256HexLoop.simps) simp
    show ?thesis
      unfolding stop using "1.prems" False by simp
  next
    case True
    define buf where "buf = slice bytes offset (min (offset + chunkSize) (length bytes))"
    have len: "length buf = min chunkSize (length bytes - offset)"
      using True by (simp add: buf_def length_slice_chunk)
    have pos: "0 < length buf" "length buf \<le> chunkSize"
      using len True chunkSize_pos by auto
    have next_le: "offset + length buf \<le> length bytes"
      using len True by auto
    have bufs': "\<forall>b\<in>set (bufs @ [buf]). 0 < length b \<and> length b \<le> chunkSize"
      using "1.prems"(2) pos by auto
    have unfold: "sha256HexLoop update bytes offset hasher bufs =
        sha256HexLoop update bytes (offset + length buf) (update hasher buf) (bufs @ [buf])"
      using True by (subst sha256HexLoop.simps) (simp add: buf_def Let_def)
    have IH: "(\<forall>b\<in>set (snd (sha256HexLoop update bytes (offset + length buf) (update hasher buf) (bufs @ [buf]))).
         0 < length b \<and> length b \<le> chunkSize) \<and>
       concat (snd (sha256HexLoop update bytes (offset + length buf) (update hasher buf) (bufs @ [buf]))) =
         concat (bufs @ [buf]) @ drop (offset + length buf) bytes \<and>
       (\<forall>h0. update hasher buf = foldl update h0 (bufs @ [buf]) \<longrightarrow>
         fst (sha256HexLoop update bytes (offset + length buf) (update hasher buf) (bufs @ [buf])) =
         foldl update h0 (snd (sha256HexLoop update bytes (offset + length buf) (update hasher buf) (bufs @ [buf]))))"
      using "1.IH" [OF True buf_def next_le bufs'] .
    have cat: "buf @ drop (offset + length buf) bytes = drop offset bytes"
    proof -
      have "buf = take (length buf) (drop offset bytes)"
        using len True by (simp add: buf_def slice_def min_def)
      moreover have "drop (offset + length buf) bytes = drop (length buf) (drop offset bytes)"
        by (simp add: add.commute)
      ultimately show ?thesis using append_take_drop_id [of "length buf" "drop offset bytes"] by simp
    qed
    show ?thesis
      unfolding unfold using IH cat by simp
  qed
qed


lemma sum_list_sortByPath:
  "sum_list (map g (sortByPath cmp xs)) = (sum_list (map g xs) :: nat)"
proof -
  have ins: "sum_list (map g (insertByPath cmp x ys)) = g x + sum_list (map g ys)" for x ys
    by (induction ys) (simp_all add: add.left_commute)
  show ?thesis
    by (induction xs) (simp_all add: sortByPath_def ins)
qed

lemma length_concat_blobParts:
  "length (concat (blobParts xs)) =
     sum_list (map (\<lambda>f. length (fullPath f) + 1 + fileSize (fileObj f)) xs)"
  by (induction xs) (simp_all add: blobParts_def fileSize_def)

lemma length_archiveBuffer:
  "length (archiveBuffer cmp list) =
     sum_list (map (\<lambda>f. length (fullPath f) + 1 + fileSize (fileObj f)) list)"
  by (simp add: archiveBuffer_def length_concat_blobParts sum_list_sortByPath)

text \<open>
  C5, as stated, on the multi-file archive digest path: for one file of 8 MiB and one
  byte, the last buffer \<open>hashFilesSHA256\<close> materialises (the whole archive, which is
  what it hashes) is larger than the chunk size.
\<close>

theorem hashFilesSHA256_buffer_counterexample:
  "chunkSize < length (last (hashFilesBuffers ordinalCompare
      [mkFile ''big.bin'' (replicate (Suc chunkSize) (CHR ''x''))]))"
  by (simp add: hashFilesBuffers_def archiveBuffer_def sortByPath_def blobParts_def mkFile_def)

text \<open>
  C5, amended. The chunked hasher \<open>sha256Hex\<close> of the upload module reads its input
  in slices that are non-empty and at most 8 MiB each (a size between 4 and 16 MiB),
  whatever the size of the input;
  the slices, in order, are the input; and the digest is the one of the hasher fed
  these slices in order. The archive digest \<open>hashFilesSHA256\<close> is not chunked: the
  buffer it hashes holds the whole archive, every path, every delimiter and every
  file's bytes.
\<close>

theorem sha256Hex_chunked_hashFiles_whole:
  "(\<forall>b\<in>set (sha256HexBuffers update init bytes). 0 < length b \<and> length b \<le> chunkSize) \<and>
   concat (sha256HexBuffers update init bytes) = bytes \<and>
   sha256Hex init update digest bytes = digest (foldl update init (sha256HexBuffers update init bytes)) \<and>
   4 * 1024 * 1024 \<le> chunkSize \<and> chunkSize \<le> 16 * 1024 * 1024 \<and>
   last (hashFilesBuffers cmp list) = archiveBuffer cmp list \<and>
   length (archiveBuffer cmp list) =
     sum_list (map (\<lambda>f. length (fullPath f) + 1 + fileSize (fileObj f)) list)"
proof -
  have range: "4 * 1024 * 1024 \<le> chunkSize \<and> chunkSize \<le> 16 * 1024 * 1024"
    by (simp add: chunkSize_def)
  show ?thesis
    using sha256HexLoop_invariant [of 0 bytes "[]" update init] range
    by (simp add: sha256HexBuffers_def sha256Hex_def hashFilesBuffers_def length_archiveBuffer)
qed

theorem sha256Hex_chunked_hashFiles_whole_witness:
  "sha256HexBuffers (\<lambda>h b. h @ b) [] ''abc'' = [''abc''] \<and>
   sha256Hex [] (\<lambda>h b. h @ b) (\<lambda>h. h) ''abc'' = ''abc'' \<and>
   length (archiveBuffer ordinalCompare [mkFile ''a'' ''xyz'']) = 5"
  using sha256Hex_chunked_hashFiles_whole
    [of "\<lambda>h b. h @ b" "[]" "''abc''" "\<lambda>h. h" ordinalCompare "[mkFile ''a'' ''xyz'']"]
  by (simp add: sha256HexBuffers_def sha256Hex_def sha256HexLoop.simps slice_def chunkSize_def mkFile_def fileSize_def Let_def)

section \<open>Properties of the endowment lock\<close>

text \<open>Numbers of moderate size are neither rounded to infinity nor to zero.\<close>

lemma overflowBound_large: "1024 < overflowBound"
proof -
  have "(2::real) ^ 1024 = 2 ^ 970 * 2 ^ 54"
    by (simp add: power_add [symmetric])
  then have "overflowBound = 2 ^ 970 * (2 ^ 54 - 1)"
    by (simp add: overflowBound_def algebra_simps)
  moreover have "(2::real) ^ 10 \<le> 2 ^ 970"
    by (rule power_increasing) simp_all
  moreover have "(2::real) \<le> 2 ^ 54 - 1"
    by simp
  ultimately have "(2::real) ^ 10 * 2 \<le> overflowBound"
    by (simp add: mult_mono)
  then show ?thesis by simp
qed

lemma underflowBound_small: "underflowBound < 1 / 1024"
proof -
  have "(2::real) ^ 11 \<le> 2 ^ 1075"
    by (rule power_increasing) simp_all
  then have "1 / (2::real) ^ 1075 \<le> 1 / 2 ^ 11"
    by (simp add: frac_le)
  then show ?thesis by (simp add: underflowBound_def)
qed

lemma inDoubleRange_moderate:
  "1 / 1024 \<le> q \<Longrightarrow> q \<le> 1024 \<Longrightarrow> inDoubleRange q = Num q"
  using overflowBound_large underflowBound_small by (simp add: inDoubleRange_def)

lemma jsTrim_samples:
  "jsTrim ''My vault'' = ''My vault''" "jsTrim ''100.00'' = ''100.00''"
  "jsTrim ''Infinity'' = ''Infinity''" "jsTrim ''-5'' = ''-5''"
  by (simp_all add: jsTrim_def ws1_def ws2_def ws3_def)


lemma lockedEndowment_uploadToS3:
  "lockedEndowment (fst (uploadToS3 pf src st)) = lockedEndowment st"
  by (simp add: uploadToS3_def Let_def split: sum.splits prod.splits option.splits)

lemma lockedEndowment_hashSettled:
  "lockedEndowment (hashSettled pf i st) = lockedEndowment st"
  by (simp add: hashSettled_def split: option.splits)

lemma lockedEndowment_dispatch:
  "e \<noteq> ProceedAfterPricing \<Longrightarrow> e \<noteq> ResetFlow \<Longrightarrow>
   lockedEndowment (dispatch pf e st) = lockedEndowment st"
  by (cases e)
     (simp_all add: lockedEndowment_uploadToS3 lockedEndowment_hashSettled
        onDemoEthPriceChange_def startMint_def mintSettled_def)

lemma lockedEndowment_events:
  "ProceedAfterPricing \<notin> set es \<Longrightarrow> ResetFlow \<notin> set es \<Longrightarrow>
   lockedEndowment (foldl (\<lambda>s e. dispatch pf e s) st es) = lockedEndowment st"
  by (induction es arbitrary: st) (auto simp: lockedEndowment_dispatch)

lemma lockedEndowment_awaitArchiveHash:
  "lockedEndowment (awaitArchiveHash st) = lockedEndowment st"
  by (simp add: awaitArchiveHash_def)

text \<open>
  C6. With pricing accepted, a vault name, the endowment text parsed as 100 and the
  rate at 2500, \<open>proceedAfterPricing\<close> stores the lock \<open>{usd: 100, eth: 0.04,
  usdPerEth: 2500}\<close>. A change of the rate input leaves the stored lock as it is, and
  so does every later sequence of controls in which the pricing step is not accepted
  again and the flow is not reset: the lock is read from the state, the rate is not
  looked up again.
\<close>

theorem lock_is_point_in_time:
  assumes "acceptedPrice st" and "jsTrim (vaultName st) \<noteq> []"
    and "jsTrim (endowmentUsd st) \<noteq> []"
    and "parseFloat pf (jsTrim (endowmentUsd st)) = Num 100"
    and "demoEthPrice st = Num 2500"
    and "ProceedAfterPricing \<notin> set es" and "ResetFlow \<notin> set es"
  shows "lockedEndowment (proceedAfterPricing pf st) =
           Some \<lparr>usd = Num 100, eth = Num (4 / 100), usdPerEth = Num 2500\<rparr> \<and>
         lockedEndowment (onDemoEthPriceChange pf text (proceedAfterPricing pf st)) =
           Some \<lparr>usd = Num 100, eth = Num (4 / 100), usdPerEth = Num 2500\<rparr> \<and>
         lockedEndowment (foldl (\<lambda>s e. dispatch pf e s) (proceedAfterPricing pf st) es) =
           Some \<lparr>usd = Num 100, eth = Num (4 / 100), usdPerEth = Num 2500\<rparr>"
proof -
  have lock: "lockedEndowment (proceedAfterPricing pf st) =
      Some \<lparr>usd = Num 100, eth = Num (4 / 100), usdPerEth = Num 2500\<rparr>"
    using assms(1-5)
    by (simp add: proceedAfterPricing_def Let_def isNaN_def truthy_def
        lockedEndowment_awaitArchiveHash inDoubleRange_moderate)
  moreover have "lockedEndowment (onDemoEthPriceChange pf text (proceedAfterPricing pf st)) =
      lockedEndowment (proceedAfterPricing pf st)"
    by (simp add: onDemoEthPriceChange_def)
  moreover have "lockedEndowment (foldl (\<lambda>s e. dispatch pf e s) (proceedAfterPricing pf st) es) =
      lockedEndowment (proceedAfterPricing pf st)"
    using assms(6,7) by (rule lockedEndowment_events)
  ultimately show ?thesis by simp
qed

theorem lock_is_point_in_time_witness:
  "lockedEndowment (proceedAfterPricing samplePlatform
      ((pricingSample ''100.00'')\<lparr>demoEthPrice := Num 2500\<rparr>)) =
     Some \<lparr>usd = Num 100, eth = Num (4 / 100), usdPerEth = Num 2500\<rparr> \<and>
   lockedEndowment (foldl (\<lambda>s e. dispatch samplePlatform e s)
      (proceedAfterPricing samplePlatform ((pricingSample ''100.00'')\<lparr>demoEthPrice := Num 2500\<rparr>))
      [BackToPricing, SetDemoEthPrice ''4000'']) =
     Some \<lparr>usd = Num 100, eth = Num (4 / 100), usdPerEth = Num 2500\<rparr>"
  using lock_is_point_in_time
    [of "(pricingSample ''100.00'')\<lparr>demoEthPrice := Num 2500\<rparr>" samplePlatform
        "[BackToPricing, SetDemoEthPrice ''4000'']" "''4000''"]
  by (simp add: pricingSample_def initialApp_def samplePlatform_def parseFloatSample_def
      jsTrim_samples)

text \<open>In that run the live rate does change: it is 4000 at the end, the lock still says 2500.\<close>

lemma demoEthPrice_changes:
  "demoEthPrice (foldl (\<lambda>s e. dispatch samplePlatform e s)
      (proceedAfterPricing samplePlatform ((pricingSample ''100.00'')\<lparr>demoEthPrice := Num 2500\<rparr>))
      [BackToPricing, SetDemoEthPrice ''4000'']) = Num 4000"
  by (simp add: pricingSample_def initialApp_def samplePlatform_def parseFloatSample_def
      jsTrim_samples proceedAfterPricing_def awaitArchiveHash_def Let_def isNaN_def truthy_def
      onDemoEthPriceChange_def mkFile_def)

text \<open>The completion of the hash that was started last.\<close>

lemma hashSettled_last:
  "hashSettled pf (length ps) (st\<lparr>pendingHashes := ps @ [list]\<rparr>) =
     (case hashFilesResult pf list of
        Some hash \<Rightarrow> st\<lparr>pendingHashes := ps, archiveHash := hash, step := ManifestStep\<rparr>
      | None \<Rightarrow> st\<lparr>pendingHashes := ps\<rparr>)"
  by (simp add: hashSettled_def split: option.splits)

text \<open>
  C7, as stated, at a file that cannot be read any more when the pricing step is
  accepted with the endowment text \<open>100.00\<close>: the amount is a non-negative finite
  number and the lock \<open>{usd: 100, eth: 100 / 3200, usdPerEth: 3200}\<close> is stored, but
  the awaited hash is rejected, so the handler ends there and the flow stays at the
  pricing step.
\<close>

theorem proceedAfterPricing_unreadable_counterexample:
  "lockedEndowment (hashSettled unreadablePlatform 0
      (proceedAfterPricing unreadablePlatform (pricingSample ''100.00''))) =
     Some \<lparr>usd = Num 100, eth = Num (100 / 3200), usdPerEth = Num 3200\<rparr> \<and>
   step (hashSettled unreadablePlatform 0
      (proceedAfterPricing unreadablePlatform (pricingSample ''100.00''))) = PricingStep \<and>
   pendingHashes (hashSettled unreadablePlatform 0
      (proceedAfterPricing unreadablePlatform (pricingSample ''100.00''))) = []"
  by (simp add: pricingSample_def initialApp_def samplePlatform_def unreadablePlatform_def
      parseFloatSample_def jsTrim_samples proceedAfterPricing_def awaitArchiveHash_def
      hashSettled_def hashFilesResult_def Let_def isNaN_def truthy_def mkFile_def
      inDoubleRange_moderate)

text \<open>
  C7, amended. With pricing accepted, a vault name and a non-blank endowment text that
  is not parsed as positive infinity: when the text is parsed as not-a-number or as a
  negative number, the error message is set and nothing else changes (the step stays,
  no lock is stored, no hash is started); when it is parsed as a non-negative finite
  number, the error is cleared and the lock is stored at once from that number and the
  rate of this moment (the live rate when it is positive, otherwise 1). The flow then
  moves to the manifest step at once when there are no files; with files it stays
  where it is while the archive hash is computed, and moves to the manifest step when
  that hash is delivered. When a file cannot be read the hash is rejected and the flow
  does not move, the lock staying stored.
\<close>

theorem proceedAfterPricing_validation:
  assumes "acceptedPrice st" and "jsTrim (vaultName st) \<noteq> []"
    and "jsTrim (endowmentUsd st) \<noteq> []"
    and "parseFloat pf (jsTrim (endowmentUsd st)) \<noteq> PosInf"
  shows "(\<not> (\<exists>r. parseFloat pf (jsTrim (endowmentUsd st)) = Num r \<and> 0 \<le> r) \<longrightarrow>
            proceedAfterPricing pf st = st\<lparr>endowmentError := Some endowmentMessage\<rparr>) \<and>
         (\<forall>r. parseFloat pf (jsTrim (endowmentUsd st)) = Num r \<and> 0 \<le> r \<longrightarrow>
            endowmentError (proceedAfterPricing pf st) = None \<and>
            (\<exists>rate. rate = (if jsLess (Num 0) (demoEthPrice st) then demoEthPrice st else Num 1) \<and>
               lockedEndowment (proceedAfterPricing pf st) =
                 Some \<lparr>usd = Num r, eth = jsDiv (Num r) rate, usdPerEth = rate\<rparr> \<and>
               lockedEndowment (hashSettled pf (length (pendingHashes st)) (proceedAfterPricing pf st)) =
                 Some \<lparr>usd = Num r, eth = jsDiv (Num r) rate, usdPerEth = rate\<rparr>) \<and>
            (files st = [] \<longrightarrow> step (proceedAfterPricing pf st) = ManifestStep) \<and>
            (files st \<noteq> [] \<longrightarrow>
               step (proceedAfterPricing pf st) = step st \<and>
               pendingHashes (proceedAfterPricing pf st) = pendingHashes st @ [files st] \<and>
               (hashFilesResult pf (files st) \<noteq> None \<longrightarrow>
                  step (hashSettled pf (length (pendingHashes st)) (proceedAfterPricing pf st)) =
                    ManifestStep \<and>
                  archiveHash (hashSettled pf (length (pendingHashes st)) (proceedAfterPricing pf st)) =
                    hashFilesSHA256 (sha256 pf) (localeCompare pf) (files st)) \<and>
               (hashFilesResult pf (files st) = None \<longrightarrow>
                  step (hashSettled pf (length (pendingHashes st)) (proceedAfterPricing pf st)) =
                    step st)))"
proof (intro conjI impI allI)
  let ?num = "parseFloat pf (jsTrim (endowmentUsd st))"
  assume "\<not> (\<exists>r. ?num = Num r \<and> 0 \<le> r)"
  with assms(4) have "isNaN ?num \<or> jsLess ?num (Num 0)"
    by (cases ?num) (auto simp: isNaN_def)
  then show "proceedAfterPricing pf st = st\<lparr>endowmentError := Some endowmentMessage\<rparr>"
    using assms(1-3) by (auto simp: proceedAfterPricing_def Let_def)
next
  fix r
  let ?rate = "if jsLess (Num 0) (demoEthPrice st) then demoEthPrice st else Num 1"
  let ?lock = "\<lparr>usd = Num r, eth = jsDiv (Num r) ?rate, usdPerEth = ?rate\<rparr>"
  assume a: "parseFloat pf (jsTrim (endowmentUsd st)) = Num r \<and> 0 \<le> r"
  have rate: "(truthy (demoEthPrice st) \<and> jsLess (Num 0) (demoEthPrice st)) =
      jsLess (Num 0) (demoEthPrice st)"
    by (cases "demoEthPrice st") (auto simp: truthy_def)
  have P: "proceedAfterPricing pf st = awaitArchiveHash (st\<lparr>lockedEndowment := Some ?lock\<rparr>)"
    using assms(1-3) a by (simp add: proceedAfterPricing_def Let_def isNaN_def rate)
  show "endowmentError (proceedAfterPricing pf st) = None"
    by (simp add: P awaitArchiveHash_def)
  have lock: "lockedEndowment (proceedAfterPricing pf st) = Some ?lock"
    by (simp add: P lockedEndowment_awaitArchiveHash)
  then show "\<exists>rate. rate = ?rate \<and>
       lockedEndowment (proceedAfterPricing pf st) =
         Some \<lparr>usd = Num r, eth = jsDiv (Num r) rate, usdPerEth = rate\<rparr> \<and>
       lockedEndowment (hashSettled pf (length (pendingHashes st)) (proceedAfterPricing pf st)) =
         Some \<lparr>usd = Num r, eth = jsDiv (Num r) rate, usdPerEth = rate\<rparr>"
    by (simp add: lockedEndowment_hashSettled)
  {
    assume "files st = []"
    then show "step (proceedAfterPricing pf st) = ManifestStep"
      by (simp add: P awaitArchiveHash_def)
  }
  {
    assume ne: "files st \<noteq> []"
    then have P': "proceedAfterPricing pf st =
        (st\<lparr>lockedEndowment := Some ?lock, endowmentError := None\<rparr>)
          \<lparr>pendingHashes := pendingHashes st @ [files st]\<rparr>"
      by (simp add: P awaitArchiveHash_def)
    show "step (proceedAfterPricing pf st) = step st"
      by (simp add: P')
    show "pendingHashes (proceedAfterPricing pf st) = pendingHashes st @ [files st]"
      by (simp add: P')
    {
      assume "hashFilesResult pf (files st) \<noteq> None"
      then have h: "hashFilesResult pf (files st) =
          Some (hashFilesSHA256 (sha256 pf) (localeCompare pf) (files st))"
        by (simp add: hashFilesResult_def split: if_splits)
      show "step (hashSettled pf (length (pendingHashes st)) (proceedAfterPricing pf st)) = ManifestStep"
        unfolding P' hashSettled_last by (simp add: h)
      show "archiveHash (hashSettled pf (length (pendingHashes st)) (proceedAfterPricing pf st)) =
          hashFilesSHA256 (sha256 pf) (localeCompare pf) (files st)"
        unfolding P' hashSettled_last by (simp add: h)
    }
    {
      assume h: "hashFilesResult pf (files st) = None"
      show "step (hashSettled pf (length (pendingHashes st)) (proceedAfterPricing pf st)) = step st"
        unfolding P' hashSettled_last by (simp add: h)
    }
  }
qed

theorem proceedAfterPricing_validation_witness:
  "proceedAfterPricing samplePlatform (pricingSample ''-5'') =
     (pricingSample ''-5'')\<lparr>endowmentError := Some endowmentMessage\<rparr> \<and>
   step (proceedAfterPricing samplePlatform (pricingSample ''100.00'')) = PricingStep \<and>
   lockedEndowment (proceedAfterPricing samplePlatform (pricingSample ''100.00'')) =
     Some \<lparr>usd = Num 100, eth = Num (100 / 3200), usdPerEth = Num 3200\<rparr> \<and>
   step (hashSettled samplePlatform 0 (proceedAfterPricing samplePlatform (pricingSample ''100.00''))) =
     ManifestStep"
  using proceedAfterPricing_validation [of "pricingSample ''-5''" samplePlatform]
    proceedAfterPricing_validation [of "pricingSample ''100.00''" samplePlatform]
  by (simp add: pricingSample_def initialApp_def samplePlatform_def parseFloatSample_def
      jsTrim_samples hashFilesResult_def mkFile_def inDoubleRange_moderate)

section \<open>Properties of the flow\<close>

text \<open>How each handler moves the step, and where pending completions come from.\<close>


lemma step_uploadToS3: "step (fst (uploadToS3 pf src st)) = step st"
  by (simp add: uploadToS3_def Let_def split: sum.splits prod.splits option.splits)

lemma step_proceedAfterPricing:
  "step (proceedAfterPricing pf st) = step st \<or> step (proceedAfterPricing pf st) = ManifestStep"
  by (simp add: proceedAfterPricing_def awaitArchiveHash_def Let_def)

lemma step_startMint:
  "step (startMint st) = step st \<or> step (startMint st) = MintingStep"
  by (simp add: startMint_def)

lemma step_hashSettled:
  "step (hashSettled pf i st) = step st \<or>
   (i < length (pendingHashes st) \<and> step (hashSettled pf i st) = ManifestStep)"
  by (simp add: hashSettled_def split: option.splits)

lemma stepRank_dispatch_back:
  "stepRank (step (dispatch pf e st)) < stepRank (step st) \<Longrightarrow>
     (e = BackToUpload \<and> step st = PricingStep \<and> step (dispatch pf e st) = UploadStep) \<or>
     (e = BackToPricing \<and> step st = ManifestStep \<and> step (dispatch pf e st) = PricingStep) \<or>
     (e = ResetFlow \<and> step (dispatch pf e st) = SelectProductStep) \<or>
     (\<exists>i. e = HashSettled i \<and> i < length (pendingHashes st) \<and>
          step (dispatch pf e st) = ManifestStep)"
proof (cases e)
  case ProceedAfterPricing
  assume "stepRank (step (dispatch pf e st)) < stepRank (step st)"
  then show ?thesis
    using ProceedAfterPricing step_proceedAfterPricing [of pf st]
    by (auto split: if_splits)
next
  case StartMint
  assume "stepRank (step (dispatch pf e st)) < stepRank (step st)"
  then show ?thesis
    using StartMint step_startMint [of st] by (auto split: if_splits)
next
  case ResetFlow
  assume "stepRank (step (dispatch pf e st)) < stepRank (step st)"
  then show ?thesis
    using ResetFlow by (auto simp: resetFlow_def split: if_splits)
next
  case (HashSettled i)
  assume "stepRank (step (dispatch pf e st)) < stepRank (step st)"
  then show ?thesis
    using HashSettled step_hashSettled [of pf i st] by auto
next
  case (MintSettled tok)
  assume "stepRank (step (dispatch pf e st)) < stepRank (step st)"
  then show ?thesis
    using MintSettled by (cases "step st") (auto simp: mintSettled_def split: if_splits)
qed (auto simp: step_uploadToS3 onDemoEthPriceChange_def split: if_splits)

lemma stepRank_dispatch_jump:
  "stepRank (step st) + 1 < stepRank (step (dispatch pf e st)) \<Longrightarrow>
     (\<exists>i. e = HashSettled i \<and> i < length (pendingHashes st) \<and>
          step (dispatch pf e st) = ManifestStep) \<or>
     (\<exists>tok. e = MintSettled tok \<and> 0 < pendingMints st \<and> step (dispatch pf e st) = VaultStep)"
proof (cases e)
  case ProceedAfterPricing
  assume "stepRank (step st) + 1 < stepRank (step (dispatch pf e st))"
  then show ?thesis
    using ProceedAfterPricing step_proceedAfterPricing [of pf st]
    by (auto split: if_splits)
next
  case StartMint
  assume "stepRank (step st) + 1 < stepRank (step (dispatch pf e st))"
  then show ?thesis
    using StartMint step_startMint [of st] by (auto split: if_splits)
next
  case (HashSettled i)
  assume "stepRank (step st) + 1 < stepRank (step (dispatch pf e st))"
  then show ?thesis
    using HashSettled step_hashSettled [of pf i st] by auto
next
  case (MintSettled tok)
  assume "stepRank (step st) + 1 < stepRank (step (dispatch pf e st))"
  then show ?thesis
    using MintSettled by (auto simp: mintSettled_def split: if_splits)
qed (auto simp: step_uploadToS3 onDemoEthPriceChange_def resetFlow_def split: if_splits)


lemma pendingHashes_uploadToS3: "pendingHashes (fst (uploadToS3 pf src st)) = pendingHashes st"
  by (simp add: uploadToS3_def Let_def split: sum.splits prod.splits option.splits)

lemma pendingMints_uploadToS3: "pendingMints (fst (uploadToS3 pf src st)) = pendingMints st"
  by (simp add: uploadToS3_def Let_def split: sum.splits prod.splits option.splits)

lemma pendingHashes_proceedAfterPricing:
  "pendingHashes (proceedAfterPricing pf st) = pendingHashes st \<or>
   (acceptedPrice st \<and> pendingHashes (proceedAfterPricing pf st) = pendingHashes st @ [files st])"
  by (simp add: proceedAfterPricing_def awaitArchiveHash_def Let_def)

lemma length_pendingHashes_hashSettled:
  "length (pendingHashes (hashSettled pf i st)) \<le> length (pendingHashes st)"
  by (simp add: hashSettled_def split: option.splits)

lemma pendingHashes_dispatch_grows:
  "length (pendingHashes st) < length (pendingHashes (dispatch pf e st)) \<Longrightarrow>
   e = ProceedAfterPricing \<and> step st = PricingStep \<and> acceptedPrice st \<and>
   pendingHashes (dispatch pf e st) = pendingHashes st @ [files st]"
proof (cases e)
  case ProceedAfterPricing
  assume "length (pendingHashes st) < length (pendingHashes (dispatch pf e st))"
  then show ?thesis
    using ProceedAfterPricing pendingHashes_proceedAfterPricing [of pf st]
    by (auto split: if_splits)
next
  case (HashSettled i)
  assume "length (pendingHashes st) < length (pendingHashes (dispatch pf e st))"
  then show ?thesis
    using HashSettled length_pendingHashes_hashSettled [of pf i st] by simp
qed (auto simp: pendingHashes_uploadToS3 onDemoEthPriceChange_def resetFlow_def startMint_def
       mintSettled_def split: if_splits)

lemma pendingMints_dispatch_grows:
  "pendingMints st < pendingMints (dispatch pf e st) \<Longrightarrow>
   e = StartMint \<and> step st = ManifestStep \<and> step (dispatch pf e st) = MintingStep"
proof (cases e)
  case ProceedAfterPricing
  assume "pendingMints st < pendingMints (dispatch pf e st)"
  then show ?thesis
    using ProceedAfterPricing
    by (auto simp: proceedAfterPricing_def awaitArchiveHash_def Let_def split: if_splits)
next
  case (HashSettled i)
  assume "pendingMints st < pendingMints (dispatch pf e st)"
  then show ?thesis
    using HashSettled by (auto simp: hashSettled_def split: if_splits option.splits)
qed (auto simp: pendingMints_uploadToS3 onDemoEthPriceChange_def resetFlow_def startMint_def
       mintSettled_def split: if_splits)

lemma jsTrim_empty: "jsTrim [] = []"
  by (simp add: jsTrim_def)

lemma proceed_sample:
  "proceedAfterPricing samplePlatform (pricingSample []) =
     (pricingSample [])\<lparr>pendingHashes := [[mkFile ''a.txt'' ''abc'']]\<rparr>"
  by (simp add: pricingSample_def initialApp_def proceedAfterPricing_def awaitArchiveHash_def
        jsTrim_samples jsTrim_empty Let_def)

lemma dispatch_proceed_sample:
  "dispatch samplePlatform ProceedAfterPricing (pricingSample []) =
     (pricingSample [])\<lparr>pendingHashes := [[mkFile ''a.txt'' ''abc'']]\<rparr>"
  unfolding dispatch.simps proceed_sample [symmetric]
  by (simp add: pricingSample_def initialApp_def)

text \<open>
  C9, as stated, in three runs from the pricing step with one file and the pricing
  accepted. The \<open>Back\<close> button moves the flow from the pricing step to the upload
  step, an earlier one, without a reset, and the files stay in memory. After
  \<open>Continue\<close>, \<open>Back\<close> and \<open>Start over\<close> the flow is at the product selection, reset;
  the hash that \<open>Continue\<close> started is then delivered and its handler sets the
  manifest step: the flow is at the manifest step with no product and no files, three
  steps further in one move and by no control. And the reset does not discard all the
  state of the build: after \<open>Continue\<close>, the hash, \<open>Back\<close>, \<open>Back\<close> and
  \<open>Start over\<close> the archive hash of the abandoned build is still stored.
\<close>

theorem pending_hash_counterexample:
  "step (pricingSample []) = PricingStep \<and>
   step (dispatch samplePlatform BackToUpload (pricingSample [])) = UploadStep \<and>
   files (dispatch samplePlatform BackToUpload (pricingSample [])) = [mkFile ''a.txt'' ''abc''] \<and>
   step (foldl (\<lambda>s e. dispatch samplePlatform e s) (pricingSample [])
           [ProceedAfterPricing, BackToUpload, ResetFlow]) = SelectProductStep \<and>
   step (foldl (\<lambda>s e. dispatch samplePlatform e s) (pricingSample [])
           [ProceedAfterPricing, BackToUpload, ResetFlow, HashSettled 0]) = ManifestStep \<and>
   productChoice (foldl (\<lambda>s e. dispatch samplePlatform e s) (pricingSample [])
           [ProceedAfterPricing, BackToUpload, ResetFlow, HashSettled 0]) = None \<and>
   files (foldl (\<lambda>s e. dispatch samplePlatform e s) (pricingSample [])
           [ProceedAfterPricing, BackToUpload, ResetFlow, HashSettled 0]) = [] \<and>
   step (foldl (\<lambda>s e. dispatch samplePlatform e s) (pricingSample [])
           [ProceedAfterPricing, HashSettled 0, BackToPricing, BackToUpload, ResetFlow]) =
     SelectProductStep \<and>
   archiveHash (foldl (\<lambda>s e. dispatch samplePlatform e s) (pricingSample [])
           [ProceedAfterPricing, HashSettled 0, BackToPricing, BackToUpload, ResetFlow]) =
     ''a.txt'' @ [CHR 0x0A] @ ''abc''"
  unfolding foldl.simps dispatch_proceed_sample
  by (simp add: pricingSample_def initialApp_def resetFlow_def hashSettled_def
        hashFilesResult_def samplePlatform_def hashFilesSHA256_def archiveBuffer_def
        sortByPath_def blobParts_def mkFile_def)

text \<open>
  C9, amended. The flow moves to an earlier step in four ways only: \<open>Back\<close> at the
  pricing step (to the upload step) and \<open>Back\<close> at the manifest step (to the pricing
  step), both changing nothing but the step; the reset; and the delivery of a pending
  archive hash, which sets the manifest step whatever the step is by then. A control
  moves the flow at most one step forward; only the delivery of a pending hash (to the
  manifest step) and the end of a pending mint (to the vault) move it further. A hash
  becomes pending only by accepting the pricing step, a mint only by starting it at the
  manifest step, and neither is cancelled by \<open>Back\<close> or by the reset. The reset
  returns to the product selection and clears the product, the escrow years (back to
  3), the files, the vault name, the acceptance, the manifest text, the visibility,
  the endowment text, its error and the lock, and the token data and its modal; it
  keeps the archive hash, the upload progress and the uploaded items, the rate, the
  session identifier and the pending completions.
\<close>

theorem steps_by_control_and_completion:
  "(stepRank (step (dispatch pf e st)) < stepRank (step st) \<longrightarrow>
      (e = BackToUpload \<and> step st = PricingStep \<and> dispatch pf e st = st\<lparr>step := UploadStep\<rparr>) \<or>
      (e = BackToPricing \<and> step st = ManifestStep \<and> dispatch pf e st = st\<lparr>step := PricingStep\<rparr>) \<or>
      (e = ResetFlow \<and> dispatch pf e st = resetFlow st) \<or>
      (\<exists>i. e = HashSettled i \<and> i < length (pendingHashes st) \<and>
           step (dispatch pf e st) = ManifestStep)) \<and>
   (stepRank (step st) + 1 < stepRank (step (dispatch pf e st)) \<longrightarrow>
      (\<exists>i. e = HashSettled i \<and> i < length (pendingHashes st) \<and>
           step (dispatch pf e st) = ManifestStep) \<or>
      (\<exists>tok. e = MintSettled tok \<and> 0 < pendingMints st \<and>
           step (dispatch pf e st) = VaultStep)) \<and>
   (length (pendingHashes st) < length (pendingHashes (dispatch pf e st)) \<longrightarrow>
      e = ProceedAfterPricing \<and> step st = PricingStep \<and> acceptedPrice st) \<and>
   (pendingMints st < pendingMints (dispatch pf e st) \<longrightarrow>
      e = StartMint \<and> step st = ManifestStep \<and> step (dispatch pf e st) = MintingStep) \<and>
   step (resetFlow st) = SelectProductStep \<and>
   productChoice (resetFlow st) = None \<and> escrowYears (resetFlow st) = 3 \<and>
   files (resetFlow st) = [] \<and> vaultName (resetFlow st) = [] \<and>
   \<not> acceptedPrice (resetFlow st) \<and> manifestText (resetFlow st) = [] \<and>
   visibility (resetFlow st) = None \<and> endowmentUsd (resetFlow st) = [] \<and>
   endowmentError (resetFlow st) = None \<and> lockedEndowment (resetFlow st) = None \<and>
   tokenData (resetFlow st) = None \<and> \<not> showTokenModal (resetFlow st) \<and>
   archiveHash (resetFlow st) = archiveHash st \<and> uploadPct (resetFlow st) = uploadPct st \<and>
   uploadedItems (resetFlow st) = uploadedItems st \<and>
   demoEthPrice (resetFlow st) = demoEthPrice st \<and> sessionId (resetFlow st) = sessionId st \<and>
   pendingHashes (resetFlow st) = pendingHashes st \<and>
   pendingMints (resetFlow st) = pendingMints st"
proof (intro conjI impI)
  assume lt: "stepRank (step (dispatch pf e st)) < stepRank (step st)"
  from stepRank_dispatch_back [OF lt] consider
      (upload) "e = BackToUpload" "step st = PricingStep" "step (dispatch pf e st) = UploadStep"
    | (pricing) "e = BackToPricing" "step st = ManifestStep"
    | (reset) "e = ResetFlow" "step (dispatch pf e st) = SelectProductStep"
    | (hash) i where "e = HashSettled i" "i < length (pendingHashes st)"
        "step (dispatch pf e st) = ManifestStep"
    by blast
  then show "(e = BackToUpload \<and> step st = PricingStep \<and> dispatch pf e st = st\<lparr>step := UploadStep\<rparr>) \<or>
      (e = BackToPricing \<and> step st = ManifestStep \<and> dispatch pf e st = st\<lparr>step := PricingStep\<rparr>) \<or>
      (e = ResetFlow \<and> dispatch pf e st = resetFlow st) \<or>
      (\<exists>i. e = HashSettled i \<and> i < length (pendingHashes st) \<and>
           step (dispatch pf e st) = ManifestStep)"
  proof cases
    case upload
    have "productChoice st \<noteq> None"
    proof
      assume "productChoice st = None"
      then have "dispatch pf e st = st" using upload(1) by simp
      with upload(2,3) show False by simp
    qed
    then have "dispatch pf e st = st\<lparr>step := UploadStep\<rparr>"
      using upload(1,2) by simp
    with upload(1,2) show ?thesis by blast
  next
    case pricing
    then have "dispatch pf e st = st\<lparr>step := PricingStep\<rparr>" by simp
    with pricing show ?thesis by blast
  next
    case reset
    have "step st = UploadStep \<or> step st = VaultStep"
    proof (rule ccontr)
      assume "\<not> (step st = UploadStep \<or> step st = VaultStep)"
      then have "dispatch pf e st = st" using reset(1) by simp
      with lt show False by simp
    qed
    then have "dispatch pf e st = resetFlow st" using reset(1) by auto
    with reset(1) show ?thesis by blast
  next
    case hash
    then show ?thesis by blast
  qed
next
  assume "stepRank (step st) + 1 < stepRank (step (dispatch pf e st))"
  then show "(\<exists>i. e = HashSettled i \<and> i < length (pendingHashes st) \<and>
           step (dispatch pf e st) = ManifestStep) \<or>
      (\<exists>tok. e = MintSettled tok \<and> 0 < pendingMints st \<and>
           step (dispatch pf e st) = VaultStep)"
    by (rule stepRank_dispatch_jump)
next
  assume g: "length (pendingHashes st) < length (pendingHashes (dispatch pf e st))"
  from pendingHashes_dispatch_grows [OF g] show "e = ProceedAfterPricing" by simp
  from pendingHashes_dispatch_grows [OF g] show "step st = PricingStep" by simp
  from pendingHashes_dispatch_grows [OF g] show "acceptedPrice st" by simp
next
  assume g: "pendingMints st < pendingMints (dispatch pf e st)"
  from pendingMints_dispatch_grows [OF g] show "e = StartMint" by simp
  from pendingMints_dispatch_grows [OF g] show "step st = ManifestStep" by simp
  from pendingMints_dispatch_grows [OF g] show "step (dispatch pf e st) = MintingStep" by blast
qed (simp_all add: resetFlow_def)

theorem steps_by_control_and_completion_witness:
  "dispatch samplePlatform BackToUpload (pricingSample []) = (pricingSample [])\<lparr>step := UploadStep\<rparr> \<and>
   step (resetFlow (pricingSample [])) = SelectProductStep \<and>
   files (resetFlow (pricingSample [])) = []"
  using steps_by_control_and_completion [of samplePlatform BackToUpload "pricingSample []"]
  by (simp add: pricingSample_def initialApp_def)

section \<open>Properties of the upload executor\<close>

text \<open>The percentages of the samples, and one that the rounding of the doubles moves.\<close>

lemma roundPct_samples:
  "roundPct 1 5 = 20" "roundPct 2 5 = 40" "roundPct 1 2 = 50" "roundPct 2 2 = 100"
  "roundPct 23 40 = 57"
  by (simp_all add: roundPct_def toDouble_def roundHalfEven_def normalise.simps)

lemma roundPct_counted:
  "roundPct (Suc 0) 5 = 20" "roundPct (Suc (Suc 0)) 5 = 40"
  "roundPct (Suc 0) (Suc (Suc (Suc (Suc (Suc 0))))) = 20"
  "roundPct (Suc (Suc 0)) (Suc (Suc (Suc (Suc (Suc 0))))) = 40"
  "roundPct (Suc 0) (Suc (Suc 0)) = 50" "roundPct (Suc (Suc 0)) (Suc (Suc 0)) = 100"
  using roundPct_samples by (simp_all add: eval_nat_numeral)

text \<open>
  C8, as stated, at the sample batch: after the run that was denied at the third item
  the state holds no mark of the first and the second item. \<open>uploadedItems\<close> is
  empty and the progress is the number 40; and the state is the very state left by
  another run on the same plan, in which the first file was not among the local files
  (so that no \<open>PUT\<close> was sent for the first item), the second and the third were
  stored and the fourth was denied. What is stored does not tell which items are
  complete.
\<close>

theorem uploadToS3_no_item_mark_counterexample:
  "uploadedItems (fst (uploadToS3 batchPlatform batchFiles (initialApp ''00112233''))) = None \<and>
   uploadPct (fst (uploadToS3 batchPlatform batchFiles (initialApp ''00112233''))) = 40 \<and>
   snd (uploadToS3 laterBatchPlatform
          [mkFile ''f2'' ''2'', mkFile ''f3'' ''3'', mkFile ''f4'' ''4'', mkFile ''f5'' ''5'']
          (initialApp ''00112233'')) =
     [PostUploadStart (planPayload ''00112233''
        [mkFile ''f2'' ''2'', mkFile ''f3'' ''3'', mkFile ''f4'' ''4'', mkFile ''f5'' ''5'']),
      PutFile (uploadUrl (batchItem ''f2'')) (fileObj (mkFile ''f2'' ''2'')),
      PutFile (uploadUrl (batchItem ''f3'')) (fileObj (mkFile ''f3'' ''3'')),
      PutFile (uploadUrl (batchItem ''f4'')) (fileObj (mkFile ''f4'' ''4'')),
      LogPutFailed ''f4'' 403 ''Forbidden'' ''AccessDenied'',
      LogUploadError (UploadFailed ''f4''),
      Alert uploadFailedAlert] \<and>
   fst (uploadToS3 laterBatchPlatform
          [mkFile ''f2'' ''2'', mkFile ''f3'' ''3'', mkFile ''f4'' ''4'', mkFile ''f5'' ''5'']
          (initialApp ''00112233'')) =
     fst (uploadToS3 batchPlatform batchFiles (initialApp ''00112233''))"
  by (simp add: uploadToS3_def getPresignedPlan_def Let_def batchPlatform_def
      laterBatchPlatform_def batchFiles_def batchItem_def denyThird_def denyFourth_def
      mkFile_def initialApp_def ok_def roundPct_counted)

text \<open>
  C8, amended. A plan of five items, each with a local file of its path; the \<open>PUT\<close> of
  the first and of the second is answered with a 2xx status, the \<open>PUT\<close> of the third
  with 403. Then the executor has sent exactly three \<open>PUT\<close>s, for the items 1, 2 and 3
  in this order (none for the items 4 and 5); it has logged the path, the status 403,
  the status text and the body of the third answer; the error that ends the batch is
  \<open>upload failed: <path of item 3>\<close>, logged and followed by the alert; and the state
  keeps one trace of the two finished items, the progress of 40 percent, with
  \<open>uploadedItems\<close> cleared and \<open>uploading\<close> off: no item is marked.
\<close>

theorem uploadToS3_aborts_at_third:
  assumes src: "source \<noteq> []"
    and plan: "api pf (planPayload (sessionId st) source) = Some (PlanReply sid [i1, i2, i3, i4, i5])"
    and m1: "find (\<lambda>x. fullPath x = relPath i1) source = Some m1"
    and m2: "find (\<lambda>x. fullPath x = relPath i2) source = Some m2"
    and m3: "find (\<lambda>x. fullPath x = relPath i3) source = Some m3"
    and r1: "fetchPut pf (uploadUrl i1) (fileObj m1) = Some r1" "ok (status r1)"
    and r2: "fetchPut pf (uploadUrl i2) (fileObj m2) = Some r2" "ok (status r2)"
    and r3: "fetchPut pf (uploadUrl i3) (fileObj m3) = Some r3" "status r3 = 403"
  shows "uploadToS3 pf source st =
     (st\<lparr>uploading := False, uploadPct := 40, uploadedItems := None\<rparr>,
      [PostUploadStart (planPayload (sessionId st) source),
       PutFile (uploadUrl i1) (fileObj m1),
       PutFile (uploadUrl i2) (fileObj m2),
       PutFile (uploadUrl i3) (fileObj m3),
       LogPutFailed (relPath i3) 403 (statusText r3) (case bodyText r3 of None \<Rightarrow> [] | Some t \<Rightarrow> t),
       LogUploadError (UploadFailed (relPath i3)),
       Alert uploadFailedAlert])"
proof -
  have loop: "uploadItems (fetchPut pf) source 5 [i1, i2, i3, i4, i5]
        \<lparr>doneCount = 0, pctShown = 0, effects = []\<rparr> =
      (Some (UploadFailed (relPath i3)),
       \<lparr>doneCount = 2, pctShown = 40, effects =
          [PutFile (uploadUrl i1) (fileObj m1), PutFile (uploadUrl i2) (fileObj m2),
           PutFile (uploadUrl i3) (fileObj m3),
           LogPutFailed (relPath i3) 403 (statusText r3)
             (case bodyText r3 of None \<Rightarrow> [] | Some t \<Rightarrow> t)]\<rparr>)"
    using m1 m2 m3 r1 r2 r3 by (simp add: roundPct_counted ok_def)
  have len: "length [i1, i2, i3, i4, i5] = 5"
    by simp
  have gp: "getPresignedPlan (api pf) (sessionId st) source = Inr (sid, [i1, i2, i3, i4, i5])"
    using plan by (simp add: getPresignedPlan_def)
  show ?thesis
    unfolding uploadToS3_def Let_def gp sum.case prod.case len loop
    using src by simp
qed

theorem uploadToS3_aborts_at_third_witness:
  "uploadToS3 batchPlatform batchFiles (initialApp ''00112233'') =
     ((initialApp ''00112233'')\<lparr>uploading := False, uploadPct := 40, uploadedItems := None\<rparr>,
      [PostUploadStart (planPayload ''00112233'' batchFiles),
       PutFile (uploadUrl (batchItem ''f1'')) (fileObj (mkFile ''f1'' ''1'')),
       PutFile (uploadUrl (batchItem ''f2'')) (fileObj (mkFile ''f2'' ''2'')),
       PutFile (uploadUrl (batchItem ''f3'')) (fileObj (mkFile ''f3'' ''3'')),
       LogPutFailed ''f3'' 403 ''Forbidden'' ''AccessDenied'',
       LogUploadError (UploadFailed ''f3''),
       Alert uploadFailedAlert])"
  using uploadToS3_aborts_at_third
    [of batchFiles batchPlatform "initialApp ''00112233''" "''00112233''"
        "batchItem ''f1''" "batchItem ''f2''" "batchItem ''f3''" "batchItem ''f4''" "batchItem ''f5''"
        "mkFile ''f1'' ''1''" "mkFile ''f2'' ''2''" "mkFile ''f3'' ''3''"
        "\<lparr>status = 200, statusText = ''OK'', bodyText = Some []\<rparr>"
        "\<lparr>status = 200, statusText = ''OK'', bodyText = Some []\<rparr>"
        "\<lparr>status = 403, statusText = ''Forbidden'', bodyText = Some ''AccessDenied''\<rparr>"]
  by (simp add: batchPlatform_def batchFiles_def batchItem_def denyThird_def mkFile_def
      initialApp_def ok_def)

lemma collectItems_relPath:
  "collectItems B sid pairs = Some items \<Longrightarrow>
   map relPath items = map (\<lambda>p. safePath (reqRelPath (fst p))) pairs"
proof (induction pairs arbitrary: items)
  case Nil
  then show ?case by simp
next
  case (Cons p pairs)
  obtain f g where p: "p = (f, g)" by (cases p)
  show ?case
  proof (cases g)
    case None
    with Cons.prems p show ?thesis by simp
  next
    case (Some url)
    with Cons.prems p obtain rest where
      rest: "collectItems B sid pairs = Some rest" "items = presignItem B sid f url # rest"
      by (auto split: option.splits)
    with Cons.IH [OF rest(1)] p show ?thesis by (simp add: presignItem_def)
  qed
qed

lemma uploadStart_plan_relPath:
  assumes "fst (uploadStart B sign rnd (planPayload sid source)) = PlanReply sid' items"
  shows "map relPath items = map (\<lambda>f. safePath (fullPath f)) source"
proof -
  let ?body = "planPayload sid source"
  let ?sid = "fst (chooseSid rnd (bodySessionId ?body))"
  let ?pairs = "map (\<lambda>f. (f, sign B (deriveKey ?sid (reqRelPath f)))) (map fileReqOf source)"
  have ne: "source \<noteq> []"
    using assms by (auto simp: uploadStart_def planPayload_def)
  have "collectItems B ?sid ?pairs = Some items"
    using assms ne
    by (auto simp: uploadStart_def planPayload_def Let_def split_beta split: option.splits)
  from collectItems_relPath [OF this] show ?thesis
    by (simp add: comp_def fileReqOf_def)
qed

lemma uploadItems_skip:
  "find (\<lambda>x. fullPath x = relPath item) source = None \<Longrightarrow>
   uploadItems put source n (pre @ item # post) ls = uploadItems put source n (pre @ post) ls"
  by (induction pre arbitrary: ls) (simp_all split: option.splits)

text \<open>
  C10, as stated, at the drop of \<open>.env\<close> together with \<open>env\<close>: the path \<open>.env\<close> is
  altered by the sanitization (to \<open>env\<close>), and the executor does find a local file
  for that item, the other file, whose bytes it sends to the item's URL; the item is
  not skipped.
\<close>

theorem altered_path_item_matched_counterexample:
  "safePath ''.env'' \<noteq> ''.env'' \<and>
   fst (uploadStart ''bk'' grantAll ''0011223344556677'' (planPayload ''00112233'' namesakeFiles)) =
     PlanReply ''00112233''
       [presignItem ''bk'' ''00112233'' (fileReqOf (mkFile ''.env'' ''SECRET''))
          ''https://bk.s3.amazonaws.com/demo/00112233/env?X-Amz-Signature=0'',
        presignItem ''bk'' ''00112233'' (fileReqOf (mkFile ''env'' ''plain''))
          ''https://bk.s3.amazonaws.com/demo/00112233/env?X-Amz-Signature=0''] \<and>
   find (\<lambda>x. fullPath x = relPath (presignItem ''bk'' ''00112233'' (fileReqOf (mkFile ''.env'' ''SECRET''))
          ''https://bk.s3.amazonaws.com/demo/00112233/env?X-Amz-Signature=0'')) namesakeFiles =
     Some (mkFile ''env'' ''plain'') \<and>
   snd (uploadToS3 samplePlatform namesakeFiles (initialApp ''00112233'')) =
     [PostUploadStart (planPayload ''00112233'' namesakeFiles),
      PutFile ''https://bk.s3.amazonaws.com/demo/00112233/env?X-Amz-Signature=0''
        (fileObj (mkFile ''env'' ''plain'')),
      PutFile ''https://bk.s3.amazonaws.com/demo/00112233/env?X-Amz-Signature=0''
        (fileObj (mkFile ''env'' ''plain'')),
      LogUploaded ''00112233'' 2 (Some ''demo/00112233/env'')]"
  by (simp add: samplePlatform_def initialApp_def namesakeFiles_def mkFile_def uploadStart_def
      planPayload_def fileReqOf_def chooseSid_def sidPattern_def sidChars_def grantAll_def
      deriveKey_def safePath_def stripLeading_def presignItem_def fileSize_def
      uploadToS3_def getPresignedPlan_def serverApi_def acceptPut_def ok_def roundPct_counted Let_def)

text \<open>
  C10, amended. Let the plan be the answer of this repository's handler to the
  executor's request, and let file \<open>i\<close> of the upload be such that no local file has
  the sanitized form of its path (so its path is altered by the sanitization). Then
  item \<open>i\<close> of the plan carries the sanitized path, the executor finds no local file
  for it and passes it over: the upload runs exactly as it would with that item taken
  out of the plan, so nothing is sent for the item and no error comes from it.
\<close>

theorem altered_path_item_skipped:
  assumes plan: "api pf = serverApi B sign rnd"
    and granted: "fst (uploadStart B sign rnd (planPayload (sessionId st) source)) = PlanReply sid' items"
    and i: "i < length source"
    and nomatch: "\<forall>x\<in>set source. fullPath x \<noteq> safePath (fullPath (source ! i))"
  shows "safePath (fullPath (source ! i)) \<noteq> fullPath (source ! i) \<and>
         i < length items \<and>
         relPath (items ! i) = safePath (fullPath (source ! i)) \<and>
         find (\<lambda>x. fullPath x = relPath (items ! i)) source = None \<and>
         uploadItems (fetchPut pf) source n items ls =
           uploadItems (fetchPut pf) source n (take i items @ drop (Suc i) items) ls \<and>
         getPresignedPlan (api pf) (sessionId st) source = Inr (sid', items)"
proof -
  have rel: "map relPath items = map (\<lambda>f. safePath (fullPath f)) source"
    using granted by (rule uploadStart_plan_relPath)
  then have len: "length items = length source"
    by (metis length_map)
  have ri: "relPath (items ! i) = safePath (fullPath (source ! i))"
  proof -
    have "relPath (items ! i) = map relPath items ! i" using i len by simp
    also have "\<dots> = safePath (fullPath (source ! i))" using rel i by simp
    finally show ?thesis .
  qed
  have altered: "safePath (fullPath (source ! i)) \<noteq> fullPath (source ! i)"
    using nomatch i by (metis nth_mem)
  have none: "find (\<lambda>x. fullPath x = relPath (items ! i)) source = None"
    using nomatch by (simp add: ri find_None_iff)
  have split: "items = take i items @ items ! i # drop (Suc i) items"
    using i len by (simp add: id_take_nth_drop)
  have "uploadItems (fetchPut pf) source n (take i items @ items ! i # drop (Suc i) items) ls =
        uploadItems (fetchPut pf) source n (take i items @ drop (Suc i) items) ls"
    using none by (rule uploadItems_skip)
  with split have skip: "uploadItems (fetchPut pf) source n items ls =
        uploadItems (fetchPut pf) source n (take i items @ drop (Suc i) items) ls"
    by simp
  have gp: "getPresignedPlan (api pf) (sessionId st) source = Inr (sid', items)"
    using plan granted by (simp add: getPresignedPlan_def serverApi_def)
  from altered i len ri none skip gp show ?thesis by simp
qed

theorem altered_path_item_skipped_witness:
  "safePath ''.env'' = ''env'' \<and>
   relPath (map (\<lambda>f. presignItem ''bk'' ''00112233'' (fileReqOf f)
        (the (grantAll ''bk'' (deriveKey ''00112233'' (fullPath f))))) dotFiles ! 0) = ''env'' \<and>
   find (\<lambda>x. fullPath x = ''env'') dotFiles = None \<and>
   uploadItems acceptPut dotFiles 2
     (map (\<lambda>f. presignItem ''bk'' ''00112233'' (fileReqOf f)
        (the (grantAll ''bk'' (deriveKey ''00112233'' (fullPath f))))) dotFiles)
     \<lparr>doneCount = 0, pctShown = 0, effects = []\<rparr> =
   uploadItems acceptPut dotFiles 2
     [presignItem ''bk'' ''00112233'' (fileReqOf (mkFile ''notes.txt'' ''hello''))
        (the (grantAll ''bk'' (deriveKey ''00112233'' ''notes.txt'')))]
     \<lparr>doneCount = 0, pctShown = 0, effects = []\<rparr>"
  using altered_path_item_skipped
    [of samplePlatform "''bk''" grantAll "''0011223344556677''" "initialApp ''00112233''" dotFiles
        "''00112233''"
        "map (\<lambda>f. presignItem ''bk'' ''00112233'' (fileReqOf f)
           (the (grantAll ''bk'' (deriveKey ''00112233'' (fullPath f))))) dotFiles"
        0 2 "\<lparr>doneCount = 0, pctShown = 0, effects = []\<rparr>"]
  by (simp add: samplePlatform_def initialApp_def dotFiles_def mkFile_def uploadStart_def
      planPayload_def fileReqOf_def chooseSid_def sidPattern_def sidChars_def grantAll_def
      deriveKey_def safePath_def stripLeading_def presignItem_def fileSize_def)
end
